theory Spec2Isabelle
  imports Main
begin

section \<open>AskMate: classes, join codes, votes and accepted answers\<close>

text \<open>
  The server keeps three collections of documents (classes, questions, answers) in a
  document store and changes them in Express route handlers. A collection is modelled as
  the list of its documents in natural order, a handler as a function from the store to
  a response and the store after it, run one request at a time. A response is the HTTP
  status with the message of the JSON body; the documents in a body are left out, as are
  file uploads, timestamps, the per-class settings and the users collection, which no
  property below reads. Object ids are strings compared with \<open>=\<close>, as the handlers
  compare their \<open>toString()\<close>; the ids of a request are taken to be well-formed.
  Strings are lists of 8-bit characters, the first 256 characters of Unicode; the result
  of \<open>toUpperCase\<close> is a list of UTF-16 code units, as the uppercase of two of these
  characters lies beyond them.

  The repository holds two copies of the Class model and of the question routes. The
  handlers follow the later copies: the Class model whose allocation loop has an attempt
  budget, and the question routes that check membership themselves. The older copy of the
  Class model declares the code required, and the create route saves a class with no
  code: that save is refused by the validation, which runs before the hook, so the loop
  of the older copy is never entered.
\<close>

subsection \<open>Strings\<close>

text \<open>
  \<open>String.prototype.toUpperCase\<close> on one character, as the list of the UTF-16 code
  units of its uppercase. Among the first 256 characters the lowercase letters with an
  uppercase are a to z, the micro sign (181, whose uppercase is the Greek capital mu,
  924), the sharp s (223, whose uppercase is the two letters SS), the letters 224 to 254
  but for the division sign 247, and the y with diaeresis (255, whose uppercase is 376).
  Every other character is its own uppercase.
\<close>

definition upperUnits :: "char \<Rightarrow> nat list" where
  "upperUnits ch =
     (let n = of_char ch in
      if 97 \<le> n \<and> n \<le> 122 then [n - 32]
      else if n = 181 then [924]
      else if n = 223 then [83, 83]
      else if (224 \<le> n \<and> n \<le> 246) \<or> (248 \<le> n \<and> n \<le> 254) then [n - 32]
      else if n = 255 then [376]
      else [n])"

text \<open>The code units of a string, and of its uppercase.\<close>

definition units :: "string \<Rightarrow> nat list" where
  "units s = map of_char s"

definition toUpperCase :: "string \<Rightarrow> nat list" where
  "toUpperCase s = concat (map upperUnits s)"

text \<open>The characters \<open>\s\<close> matches among the first 256: tab, line feed, vertical tab,
  form feed, carriage return, space and no-break space.\<close>

definition isSpace :: "char \<Rightarrow> bool" where
  "isSpace ch = ((of_char ch :: nat) \<in> {9, 10, 11, 12, 13, 32, 160})"

definition trim :: "string \<Rightarrow> string" where
  "trim s = rev (dropWhile isSpace (rev (dropWhile isSpace s)))"

text \<open>\<open>String.prototype.charAt\<close>: the one-character string at an index, the empty string
  out of range.\<close>

definition charAt :: "string \<Rightarrow> int \<Rightarrow> string" where
  "charAt s i = (if 0 \<le> i \<and> i < int (length s) then [s ! nat i] else [])"

text \<open>\<open>Array.prototype.some\<close>.\<close>

primrec some :: "('a \<Rightarrow> bool) \<Rightarrow> 'a list \<Rightarrow> bool" where
  "some p [] = False"
| "some p (x # xs) = (if p x then True else some p xs)"

subsection \<open>Documents\<close>

type_synonym objectId = string

datatype memberRole = Student | Teacher

record classMember =
  m_user :: objectId
  m_role :: memberRole

record classDoc =
  c_id :: objectId
  c_name :: string
  c_description :: "string option"
  c_classCode :: "string option"
  c_createdBy :: objectId
  c_members :: "classMember list"
  c_isActive :: bool

record questionDoc =
  q_id :: objectId
  q_title :: string
  q_description :: string
  q_tags :: "string list"
  q_classId :: objectId
  q_author :: objectId
  q_answers :: "objectId list"
  q_upvotes :: "objectId list"
  q_downvotes :: "objectId list"
  q_isResolved :: bool
  q_isPinned :: bool
  q_isActive :: bool
  q_views :: nat

record answerDoc =
  a_id :: objectId
  a_text :: string
  a_questionId :: objectId
  a_author :: objectId
  a_upvotes :: "objectId list"
  a_downvotes :: "objectId list"
  a_isAccepted :: bool
  a_isActive :: bool

record store =
  classes :: "classDoc list"
  questions :: "questionDoc list"
  answers :: "answerDoc list"

datatype response = Resp nat string

subsection \<open>The class-code generator and the allocation loop (Class model, pre-save hook)\<close>

text \<open>
  A finite double that is not negative is \<open>m * 2^e\<close> for a mantissa \<open>m\<close> below \<open>2^53\<close> and
  an exponent \<open>e\<close> from -1074 to 971; it is written as the pair \<open>(m, e)\<close>. The product of a
  double and an integer that a double holds exactly is the exact product rounded to 53
  significant bits, a tie to the even mantissa, as the multiplication of IEEE 754 rounds
  it. (A product beyond the largest double is infinite in JavaScript and a large number
  here; \<open>charAt\<close> answers both with the empty string.)
\<close>

type_synonym double = "nat \<times> int"

text \<open>The number of bits of a mantissa; \<open>m / 2^s\<close> rounded to the nearest integer, a tie
  to the even one; and the double nearest to \<open>m * 2^e\<close>, which keeps the mantissa when it
  has at most 53 bits and rounds away the bits beyond 53 otherwise.\<close>

fun bitLength :: "nat \<Rightarrow> nat" where
  "bitLength m = (if m = 0 then 0 else Suc (bitLength (m div 2)))"

declare bitLength.simps [simp del]

definition roundShift :: "nat \<Rightarrow> nat \<Rightarrow> nat" where
  "roundShift m s =
     (if m mod 2 ^ s < 2 ^ (s - 1) \<or> (m mod 2 ^ s = 2 ^ (s - 1) \<and> even (m div 2 ^ s))
      then m div 2 ^ s
      else m div 2 ^ s + 1)"

definition roundDouble :: "nat \<Rightarrow> int \<Rightarrow> double" where
  "roundDouble m e =
     (if bitLength m \<le> 53 then (m, e)
      else (roundShift m (bitLength m - 53), e + int (bitLength m - 53)))"

text \<open>The product \<open>d * k\<close> of a double and an integer, as in
  \<open>Math.random() * chars.length\<close>.\<close>

definition mulDouble :: "double \<Rightarrow> nat \<Rightarrow> double" where
  "mulDouble d k = roundDouble (fst d * k) (snd d)"

text \<open>\<open>Math.floor\<close>.\<close>

definition floorDouble :: "double \<Rightarrow> int" where
  "floorDouble d =
     (if 0 \<le> snd d then int (fst d * 2 ^ nat (snd d)) else int (fst d div 2 ^ nat (- snd d)))"

definition isDouble :: "double \<Rightarrow> bool" where
  "isDouble d = (fst d < 2 ^ 53 \<and> - 1074 \<le> snd d \<and> snd d \<le> 971)"

text \<open>The doubles below 1.\<close>

definition belowOne :: "double \<Rightarrow> bool" where
  "belowOne d = (fst d = 0 \<or> (snd d < 0 \<and> fst d < 2 ^ nat (- snd d)))"

text \<open>
  \<open>Math.random\<close> is an input of the model: \<open>random n\<close> is the double that the n-th call
  returns. The generator makes six calls; it is given the number of calls made so far and
  returns the code with the number of calls after it.
\<close>

definition chars :: string where
  "chars = ''ABCDEFGHIJKLMNOPQRSTUVWXYZ0123456789''"

function genLoop :: "(nat \<Rightarrow> double) \<Rightarrow> nat \<Rightarrow> string \<Rightarrow> nat \<Rightarrow> string \<times> nat" where
  "genLoop random i result n =
     (if i < 6
      then genLoop random (i + 1)
             (result @ charAt chars (floorDouble (mulDouble (random n) (length chars)))) (n + 1)
      else (result, n))"
  by pat_completeness auto
termination
  by (relation "measure (\<lambda>(random, i, result, n). 6 - i)") auto

declare genLoop.simps [simp del]

definition generateClassCode :: "(nat \<Rightarrow> double) \<Rightarrow> nat \<Rightarrow> string \<times> nat" where
  "generateClassCode random n = genLoop random 0 [] n"

text \<open>\<open>Class.findOne({ classCode })\<close>: the first document with that code.\<close>

definition findOneByCode :: "classDoc list \<Rightarrow> string \<Rightarrow> classDoc option" where
  "findOneByCode cs code = find (\<lambda>c. c_classCode c = Some code) cs"

text \<open>\<open>Class.findOne\<close> with a key given by its code units: a stored code is the key when
  its code units are those of the key.\<close>

definition findOneByUnits :: "classDoc list \<Rightarrow> nat list \<Rightarrow> classDoc option" where
  "findOneByUnits cs key = find (\<lambda>c. map_option units (c_classCode c) = Some key) cs"

definition maxAttempts :: nat where
  "maxAttempts = 10"

text \<open>The loop of the hook with the attempt budget. Its state is the candidate code
  (undefined before the first attempt), the flag \<open>isUnique\<close>, the attempts made and the
  calls of \<open>Math.random\<close> made.\<close>

function allocLoop ::
  "(nat \<Rightarrow> double) \<Rightarrow> classDoc list \<Rightarrow> string option \<Rightarrow> bool \<Rightarrow> nat \<Rightarrow> nat
     \<Rightarrow> string option \<times> bool \<times> nat \<times> nat" where
  "allocLoop random cs classCode isUnique attempts n =
     (if \<not> isUnique \<and> attempts < maxAttempts
      then (let g = generateClassCode random n;
                existingClass = findOneByCode cs (fst g)
            in allocLoop random cs (Some (fst g))
                 (if existingClass = None then True else isUnique) (attempts + 1) (snd g))
      else (classCode, isUnique, attempts, n))"
  by pat_completeness auto
termination
  by (relation "measure (\<lambda>(random, cs, classCode, isUnique, attempts, n). maxAttempts - attempts)")
    auto

declare allocLoop.simps [simp del]

text \<open>The hook: it leaves a document that is not new, or that has a code, unchanged;
  otherwise it runs the loop and either fails with an error or sets the code.\<close>

definition truthy :: "string option \<Rightarrow> bool" where
  "truthy v = (case v of None \<Rightarrow> False | Some s \<Rightarrow> s \<noteq> [])"

text \<open>The schema declares \<open>uppercase: true\<close> and \<open>trim: true\<close> for the code. The code
  that the hook assigns is made of characters of the alphabet, which neither changes
  (lemmas \<open>generateClassCode_set\<close>, \<open>toUpperCase_code\<close> and \<open>trim_code\<close>), so the document
  holds the code as the loop drew it.\<close>

definition preSaveClassCode ::
  "(nat \<Rightarrow> double) \<Rightarrow> classDoc list \<Rightarrow> bool \<Rightarrow> classDoc \<Rightarrow> string + classDoc" where
  "preSaveClassCode random cs isNew this =
     (if \<not> isNew \<or> truthy (c_classCode this) then Inr this
      else (case allocLoop random cs None False 0 0 of
              (classCode, isUnique, attempts, n) \<Rightarrow>
                if \<not> isUnique
                then Inl ''Failed to generate unique class code after multiple attempts''
                else Inr (this\<lparr>c_classCode := classCode\<rparr>)))"

text \<open>The second hook adds the creator as a teacher member of a new class.\<close>

definition preSaveCreator :: "bool \<Rightarrow> classDoc \<Rightarrow> classDoc" where
  "preSaveCreator isNew this =
     (if isNew
      then this\<lparr>c_members := c_members this @ [\<lparr>m_user = c_createdBy this, m_role = Teacher\<rparr>]\<rparr>
      else this)"

subsection \<open>The store\<close>

text \<open>
  \<open>_id\<close> is unique in a collection and the class code has a unique index: an insert that
  repeats either fails. An update by id changes the documents with that id (at most one).
  \<open>save()\<close> of a loaded document sends the modified paths only, and a path is modified
  when it was assigned a value other than the loaded one; where nothing else wrote the
  path since the document was loaded, the model writes the assigned value.
\<close>

definition Class_findById :: "classDoc list \<Rightarrow> objectId \<Rightarrow> classDoc option" where
  "Class_findById cs i = find (\<lambda>c. c_id c = i) cs"

definition Question_findById :: "questionDoc list \<Rightarrow> objectId \<Rightarrow> questionDoc option" where
  "Question_findById qs i = find (\<lambda>q. q_id q = i) qs"

definition Answer_findById :: "answerDoc list \<Rightarrow> objectId \<Rightarrow> answerDoc option" where
  "Answer_findById as i = find (\<lambda>a. a_id a = i) as"

definition updateOne :: "('d \<Rightarrow> objectId) \<Rightarrow> objectId \<Rightarrow> ('d \<Rightarrow> 'd) \<Rightarrow> 'd list \<Rightarrow> 'd list" where
  "updateOne idOf i f docs = map (\<lambda>d. if idOf d = i then f d else d) docs"

definition Class_insert :: "classDoc list \<Rightarrow> classDoc \<Rightarrow> string + classDoc list" where
  "Class_insert cs d =
     (if c_id d \<in> set (map c_id cs) \<or> c_classCode d \<in> set (map c_classCode cs)
      then Inl ''E11000 duplicate key error''
      else Inr (cs @ [d]))"

definition Question_insert :: "questionDoc list \<Rightarrow> questionDoc \<Rightarrow> string + questionDoc list" where
  "Question_insert qs d =
     (if q_id d \<in> set (map q_id qs) then Inl ''E11000 duplicate key error'' else Inr (qs @ [d]))"

definition Answer_insert :: "answerDoc list \<Rightarrow> answerDoc \<Rightarrow> string + answerDoc list" where
  "Answer_insert as d =
     (if a_id d \<in> set (map a_id as) then Inl ''E11000 duplicate key error'' else Inr (as @ [d]))"

text \<open>\<open>save()\<close> of a new class: the two hooks in the order they are registered, then the
  insert. An error of the first hook ends the save.\<close>

definition Class_saveNew :: "(nat \<Rightarrow> double) \<Rightarrow> classDoc list \<Rightarrow> classDoc \<Rightarrow> string + classDoc list" where
  "Class_saveNew random cs d =
     (case preSaveClassCode random cs True d of
        Inl err \<Rightarrow> Inl err
      | Inr d1 \<Rightarrow> Class_insert cs (preSaveCreator True d1))"

subsection \<open>Access checks (auth middleware)\<close>

definition isMember :: "classDoc \<Rightarrow> objectId \<Rightarrow> bool" where
  "isMember classDoc userId = some (\<lambda>member. m_user member = userId) (c_members classDoc)"

definition isTeacher :: "classDoc \<Rightarrow> objectId \<Rightarrow> bool" where
  "isTeacher classDoc userId =
     some (\<lambda>member. m_user member = userId \<and> m_role member = Teacher) (c_members classDoc)"

definition requireRole :: "string list \<Rightarrow> string \<Rightarrow> response option" where
  "requireRole roles userRole =
     (if userRole \<notin> set roles then Some (Resp 403 ''Insufficient permissions'') else None)"

definition requireClassMember :: "store \<Rightarrow> objectId \<Rightarrow> objectId \<Rightarrow> response + classDoc" where
  "requireClassMember s i userId =
     (case Class_findById (classes s) i of
        None \<Rightarrow> Inl (Resp 404 ''Class not found'')
      | Some classDoc \<Rightarrow>
          if \<not> isMember classDoc userId
          then Inl (Resp 403 ''You are not a member of this class'')
          else Inr classDoc)"

definition requireClassTeacher :: "store \<Rightarrow> objectId \<Rightarrow> objectId \<Rightarrow> response + classDoc" where
  "requireClassTeacher s i userId =
     (case Class_findById (classes s) i of
        None \<Rightarrow> Inl (Resp 404 ''Class not found'')
      | Some classDoc \<Rightarrow>
          if \<not> isTeacher classDoc userId
          then Inl (Resp 403 ''Teacher access required'')
          else Inr classDoc)"

subsection \<open>Class routes\<close>

definition optTooLong :: "nat \<Rightarrow> string option \<Rightarrow> bool" where
  "optTooLong n v = (case v of None \<Rightarrow> False | Some d \<Rightarrow> n < length d)"

definition createClass ::
  "(nat \<Rightarrow> double) \<Rightarrow> objectId \<Rightarrow> objectId \<Rightarrow> string \<Rightarrow> string \<Rightarrow> string option \<Rightarrow> store
     \<Rightarrow> response \<times> store" where
  "createClass random newId userId userRole name description s =
     (case requireRole [''teacher'', ''admin''] userRole of
        Some r \<Rightarrow> (r, s)
      | None \<Rightarrow>
          (let name' = trim name; description' = map_option trim description in
           if length name' < 3 \<or> 100 < length name' \<or> optTooLong 500 description'
           then (Resp 400 ''Validation failed'', s)
           else (case Class_saveNew random (classes s)
                        \<lparr>c_id = newId, c_name = name', c_description = description',
                         c_classCode = None, c_createdBy = userId, c_members = [],
                         c_isActive = True\<rparr> of
                   Inl err \<Rightarrow> (Resp 500 ''Server error creating class'', s)
                 | Inr cs' \<Rightarrow> (Resp 201 ''Class created successfully'', s\<lparr>classes := cs'\<rparr>))))"

definition joinClass :: "objectId \<Rightarrow> string \<Rightarrow> store \<Rightarrow> response \<times> store" where
  "joinClass userId classCode s =
     (let classCode' = trim classCode in
      if length classCode' \<noteq> 6 then (Resp 400 ''Validation failed'', s)
      else (case findOneByUnits (classes s) (toUpperCase classCode') of
              None \<Rightarrow> (Resp 404 ''Class not found with this code'', s)
            | Some classDoc \<Rightarrow>
                if \<not> c_isActive classDoc
                then (Resp 400 ''This class is no longer active'', s)
                else if some (\<lambda>member. m_user member = userId) (c_members classDoc)
                then (Resp 400 ''You are already a member of this class'', s)
                else (Resp 200 ''Successfully joined class'',
                      s\<lparr>classes := updateOne c_id (c_id classDoc)
                          (\<lambda>d. d\<lparr>c_members := c_members classDoc
                                   @ [\<lparr>m_user = userId, m_role = Student\<rparr>]\<rparr>)
                          (classes s)\<rparr>)))"

definition updateClass ::
  "objectId \<Rightarrow> objectId \<Rightarrow> string option \<Rightarrow> string option \<Rightarrow> store \<Rightarrow> response \<times> store" where
  "updateClass i userId name description s =
     (case requireClassTeacher s i userId of
        Inl r \<Rightarrow> (r, s)
      | Inr reqClass \<Rightarrow>
          (let name' = map_option trim name; description' = map_option trim description in
           if (case name' of None \<Rightarrow> False | Some v \<Rightarrow> length v < 3 \<or> 100 < length v)
              \<or> optTooLong 500 description'
           then (Resp 400 ''Validation failed'', s)
           else (Resp 200 ''Class updated successfully'',
                 s\<lparr>classes := updateOne c_id i
                     (\<lambda>d. d\<lparr>c_name :=
                               (case name' of None \<Rightarrow> c_name d
                                | Some v \<Rightarrow> if v \<noteq> [] then v else c_name d),
                            c_description :=
                               (case description' of None \<Rightarrow> c_description d
                                | Some v \<Rightarrow> Some v)\<rparr>)
                     (classes s)\<rparr>)))"

definition removeMember :: "objectId \<Rightarrow> objectId \<Rightarrow> string \<Rightarrow> store \<Rightarrow> response \<times> store" where
  "removeMember i authUser userId s =
     (case requireClassTeacher s i authUser of
        Inl r \<Rightarrow> (r, s)
      | Inr reqClass \<Rightarrow>
          if c_createdBy reqClass = userId then (Resp 400 ''Cannot remove class creator'', s)
          else (Resp 200 ''Member removed successfully'',
                s\<lparr>classes := updateOne c_id (c_id reqClass)
                    (\<lambda>d. d\<lparr>c_members :=
                           filter (\<lambda>member. m_user member \<noteq> userId) (c_members reqClass)\<rparr>)
                    (classes s)\<rparr>))"

definition deleteClass :: "objectId \<Rightarrow> objectId \<Rightarrow> store \<Rightarrow> response \<times> store" where
  "deleteClass i userId s =
     (case Class_findById (classes s) i of
        None \<Rightarrow> (Resp 404 ''Class not found'', s)
      | Some classDoc \<Rightarrow>
          if c_createdBy classDoc \<noteq> userId
          then (Resp 403 ''Only class creator can delete the class'', s)
          else (Resp 200 ''Class deleted successfully'',
                s\<lparr>classes := filter (\<lambda>c. c_id c \<noteq> i) (classes s)\<rparr>))"

subsection \<open>Votes (the vote handlers of questions and answers)\<close>

text \<open>Both vote handlers run the same statements on the two voter arrays of the
  document: filter the user out of both, then push the user on one of them.\<close>

definition castVote ::
  "objectId \<Rightarrow> string \<Rightarrow> objectId list \<times> objectId list \<Rightarrow> objectId list \<times> objectId list" where
  "castVote userId type v =
     (let upvotes = filter (\<lambda>i. i \<noteq> userId) (fst v);
          downvotes = filter (\<lambda>i. i \<noteq> userId) (snd v)
      in if type = ''upvote'' then (upvotes @ [userId], downvotes)
         else if type = ''downvote'' then (upvotes, downvotes @ [userId])
         else (upvotes, downvotes))"

definition voteTypes :: "string list" where
  "voteTypes = [''upvote'', ''downvote'', ''remove'']"

subsection \<open>Question routes\<close>

text \<open>\<open>String.prototype.split\<close> on one separator character.\<close>

fun split :: "char \<Rightarrow> string \<Rightarrow> string list" where
  "split sep [] = [[]]"
| "split sep (c # cs) =
     (if c = sep then [] # split sep cs
      else (case split sep cs of [] \<Rightarrow> [[c]] | w # ws \<Rightarrow> (c # w) # ws))"

text \<open>The tags of a request: absent, an array of strings, or one string.\<close>

datatype tagsInput = NoTags | TagArray "string list" | TagString string

definition processTags :: "tagsInput \<Rightarrow> string list" where
  "processTags tags =
     (case tags of
        NoTags \<Rightarrow> []
      | TagArray ts \<Rightarrow> filter (\<lambda>tag. tag \<noteq> [] \<and> 0 < length (trim tag)) ts
      | TagString t \<Rightarrow> filter (\<lambda>tag. 0 < length tag) (map trim (split CHR '','' t)))"

definition getQuestion :: "objectId \<Rightarrow> objectId \<Rightarrow> store \<Rightarrow> response \<times> store" where
  "getQuestion i userId s =
     (case Question_findById (questions s) i of
        None \<Rightarrow> (Resp 404 ''Question not found'', s)
      | Some question \<Rightarrow>
          (case Class_findById (classes s) (q_classId question) of
             None \<Rightarrow> (Resp 500 ''Server error fetching question'', s)
           | Some classDoc \<Rightarrow>
               if \<not> isMember classDoc userId then (Resp 403 ''Access denied'', s)
               else (Resp 200 [],
                     s\<lparr>questions := updateOne q_id (q_id question)
                         (\<lambda>d. d\<lparr>q_views := q_views question + 1\<rparr>) (questions s)\<rparr>)))"

definition createQuestion ::
  "objectId \<Rightarrow> objectId \<Rightarrow> objectId \<Rightarrow> string \<Rightarrow> string \<Rightarrow> tagsInput \<Rightarrow> store
     \<Rightarrow> response \<times> store" where
  "createQuestion newId classId userId title description tags s =
     (let title' = trim title; description' = trim description in
      if length title' < 5 \<or> 200 < length title'
         \<or> length description' < 10 \<or> 2000 < length description'
      then (Resp 400 ''Validation failed'', s)
      else (case Class_findById (classes s) classId of
              None \<Rightarrow> (Resp 404 ''Class not found'', s)
            | Some classDoc \<Rightarrow>
                if \<not> isMember classDoc userId
                then (Resp 403 ''You are not a member of this class'', s)
                else (let processedTags = map trim (processTags tags) in
                      if \<exists>tag \<in> set processedTags. 20 < length tag
                      then (Resp 400 ''Validation failed'', s)
                      else (case Question_insert (questions s)
                                   \<lparr>q_id = newId, q_title = title', q_description = description',
                                    q_tags = processedTags, q_classId = classId,
                                    q_author = userId, q_answers = [], q_upvotes = [],
                                    q_downvotes = [], q_isResolved = False, q_isPinned = False,
                                    q_isActive = True, q_views = 0\<rparr> of
                              Inl err \<Rightarrow> (Resp 500 ''Server error creating question'', s)
                            | Inr qs' \<Rightarrow>
                                (Resp 201 ''Question created successfully'',
                                 s\<lparr>questions := qs'\<rparr>)))))"

definition updateQuestion ::
  "objectId \<Rightarrow> objectId \<Rightarrow> string option \<Rightarrow> string option \<Rightarrow> string list option \<Rightarrow> store
     \<Rightarrow> response \<times> store" where
  "updateQuestion i userId title description tags s =
     (let title' = map_option trim title; description' = map_option trim description in
      if (case title' of None \<Rightarrow> False | Some v \<Rightarrow> length v < 5 \<or> 200 < length v)
         \<or> (case description' of None \<Rightarrow> False | Some v \<Rightarrow> length v < 10 \<or> 2000 < length v)
      then (Resp 400 ''Validation failed'', s)
      else (case Question_findById (questions s) i of
              None \<Rightarrow> (Resp 404 ''Question not found'', s)
            | Some question \<Rightarrow>
                (case Class_findById (classes s) (q_classId question) of
                   None \<Rightarrow> (Resp 500 ''Server error updating question'', s)
                 | Some classDoc \<Rightarrow>
                     if \<not> (q_author question = userId) \<and> \<not> isTeacher classDoc userId
                     then (Resp 403 ''Not authorized to edit this question'', s)
                     else (let tags' = map_option
                                 (\<lambda>ts. map trim (filter (\<lambda>tag. 0 < length (trim tag)) ts)) tags in
                           if (case tags' of None \<Rightarrow> False
                               | Some ts \<Rightarrow> \<exists>tag \<in> set ts. 20 < length tag)
                           then (Resp 500 ''Server error updating question'', s)
                           else (Resp 200 ''Question updated successfully'',
                                 s\<lparr>questions := updateOne q_id i
                                     (\<lambda>d. d\<lparr>q_title :=
                                               (case title' of None \<Rightarrow> q_title d
                                                | Some v \<Rightarrow> if v \<noteq> [] then v else q_title d),
                                            q_description :=
                                               (case description' of None \<Rightarrow> q_description d
                                                | Some v \<Rightarrow>
                                                    if v \<noteq> [] then v else q_description d),
                                            q_tags :=
                                               (case tags' of None \<Rightarrow> q_tags d
                                                | Some ts \<Rightarrow> ts)\<rparr>)
                                     (questions s)\<rparr>)))))"

definition voteQuestion :: "objectId \<Rightarrow> objectId \<Rightarrow> string \<Rightarrow> store \<Rightarrow> response \<times> store" where
  "voteQuestion i userId type s =
     (if type \<notin> set voteTypes then (Resp 400 ''Validation failed'', s)
      else (case Question_findById (questions s) i of
              None \<Rightarrow> (Resp 404 ''Question not found'', s)
            | Some question \<Rightarrow>
                (case Class_findById (classes s) (q_classId question) of
                   None \<Rightarrow> (Resp 500 ''Server error voting on question'', s)
                 | Some classDoc \<Rightarrow>
                     if \<not> isMember classDoc userId then (Resp 403 ''Access denied'', s)
                     else (let v = castVote userId type (q_upvotes question, q_downvotes question)
                           in (Resp 200 ''Vote updated successfully'',
                               s\<lparr>questions := updateOne q_id (q_id question)
                                   (\<lambda>d. d\<lparr>q_upvotes := fst v, q_downvotes := snd v\<rparr>)
                                   (questions s)\<rparr>)))))"

definition deleteQuestion :: "objectId \<Rightarrow> objectId \<Rightarrow> store \<Rightarrow> response \<times> store" where
  "deleteQuestion i userId s =
     (case Question_findById (questions s) i of
        None \<Rightarrow> (Resp 404 ''Question not found'', s)
      | Some question \<Rightarrow>
          (case Class_findById (classes s) (q_classId question) of
             None \<Rightarrow> (Resp 500 ''Server error deleting question'', s)
           | Some classDoc \<Rightarrow>
               if \<not> (q_author question = userId) \<and> \<not> isTeacher classDoc userId
               then (Resp 403 ''Not authorized to delete this question'', s)
               else (Resp 200 ''Question deleted successfully'',
                     s\<lparr>questions := updateOne q_id (q_id question)
                         (\<lambda>d. d\<lparr>q_isActive := False\<rparr>) (questions s)\<rparr>)))"

subsection \<open>Answer routes\<close>

definition createAnswer ::
  "objectId \<Rightarrow> objectId \<Rightarrow> objectId \<Rightarrow> string \<Rightarrow> store \<Rightarrow> response \<times> store" where
  "createAnswer newId questionId userId text s =
     (let text' = trim text in
      if length text' < 5 \<or> 2000 < length text' then (Resp 400 ''Validation failed'', s)
      else (case Question_findById (questions s) questionId of
              None \<Rightarrow> (Resp 404 ''Question not found'', s)
            | Some question \<Rightarrow>
                (case Class_findById (classes s) (q_classId question) of
                   None \<Rightarrow> (Resp 500 ''Server error creating answer'', s)
                 | Some classDoc \<Rightarrow>
                     if \<not> isMember classDoc userId then (Resp 403 ''Access denied'', s)
                     else (case Answer_insert (answers s)
                                  \<lparr>a_id = newId, a_text = text', a_questionId = questionId,
                                   a_author = userId, a_upvotes = [], a_downvotes = [],
                                   a_isAccepted = False, a_isActive = True\<rparr> of
                             Inl err \<Rightarrow> (Resp 500 ''Server error creating answer'', s)
                           | Inr as' \<Rightarrow>
                               (Resp 201 ''Answer created successfully'',
                                s\<lparr>answers := as',
                                  questions := updateOne q_id (q_id question)
                                    (\<lambda>d. d\<lparr>q_answers := q_answers question @ [newId]\<rparr>)
                                    (questions s)\<rparr>)))))"

definition updateAnswer :: "objectId \<Rightarrow> objectId \<Rightarrow> string \<Rightarrow> store \<Rightarrow> response \<times> store" where
  "updateAnswer i userId text s =
     (let text' = trim text in
      if length text' < 5 \<or> 2000 < length text' then (Resp 400 ''Validation failed'', s)
      else (case Answer_findById (answers s) i of
              None \<Rightarrow> (Resp 404 ''Answer not found'', s)
            | Some answer \<Rightarrow>
                (case Question_findById (questions s) (a_questionId answer) of
                   None \<Rightarrow> (Resp 500 ''Server error updating answer'', s)
                 | Some question \<Rightarrow>
                     (case Class_findById (classes s) (q_classId question) of
                        None \<Rightarrow> (Resp 500 ''Server error updating answer'', s)
                      | Some classDoc \<Rightarrow>
                          if \<not> (a_author answer = userId) \<and> \<not> isTeacher classDoc userId
                          then (Resp 403 ''Not authorized to edit this answer'', s)
                          else (Resp 200 ''Answer updated successfully'',
                                s\<lparr>answers := updateOne a_id i (\<lambda>d. d\<lparr>a_text := text'\<rparr>)
                                    (answers s)\<rparr>)))))"

definition voteAnswer :: "objectId \<Rightarrow> objectId \<Rightarrow> string \<Rightarrow> store \<Rightarrow> response \<times> store" where
  "voteAnswer i userId type s =
     (if type \<notin> set voteTypes then (Resp 400 ''Validation failed'', s)
      else (case Answer_findById (answers s) i of
              None \<Rightarrow> (Resp 404 ''Answer not found'', s)
            | Some answer \<Rightarrow>
                (case Question_findById (questions s) (a_questionId answer) of
                   None \<Rightarrow> (Resp 500 ''Server error voting on answer'', s)
                 | Some question \<Rightarrow>
                     (case Class_findById (classes s) (q_classId question) of
                        None \<Rightarrow> (Resp 500 ''Server error voting on answer'', s)
                      | Some classDoc \<Rightarrow>
                          if \<not> isMember classDoc userId then (Resp 403 ''Access denied'', s)
                          else (let v = castVote userId type (a_upvotes answer, a_downvotes answer)
                                in (Resp 200 ''Vote updated successfully'',
                                    s\<lparr>answers := updateOne a_id (a_id answer)
                                        (\<lambda>d. d\<lparr>a_upvotes := fst v, a_downvotes := snd v\<rparr>)
                                        (answers s)\<rparr>))))))"

text \<open>
  Accepting an answer: \<open>updateMany\<close> clears the flag of every answer of the question in
  the store, the accepted one included; the handler then assigns \<open>true\<close> to the flag of
  the answer document it loaded before and saves it, and does the same with the
  question's \<open>isResolved\<close>. A flag that was already \<open>true\<close> when the document was loaded
  is not a modified path, and its save sends nothing.
\<close>

definition Answer_updateMany_unaccept :: "objectId \<Rightarrow> answerDoc list \<Rightarrow> answerDoc list" where
  "Answer_updateMany_unaccept questionId as =
     map (\<lambda>d. if a_questionId d = questionId then d\<lparr>a_isAccepted := False\<rparr> else d) as"

definition acceptAnswer :: "objectId \<Rightarrow> objectId \<Rightarrow> store \<Rightarrow> response \<times> store" where
  "acceptAnswer i userId s =
     (case Answer_findById (answers s) i of
        None \<Rightarrow> (Resp 404 ''Answer not found'', s)
      | Some answer \<Rightarrow>
          (case Question_findById (questions s) (a_questionId answer) of
             None \<Rightarrow> (Resp 404 ''Question not found'', s)
           | Some question \<Rightarrow>
               (case Class_findById (classes s) (q_classId question) of
                  None \<Rightarrow> (Resp 500 ''Server error accepting answer'', s)
                | Some classDoc \<Rightarrow>
                    if \<not> (q_author question = userId) \<and> \<not> isTeacher classDoc userId
                    then (Resp 403 ''Not authorized to accept this answer'', s)
                    else (let as1 = Answer_updateMany_unaccept (a_questionId answer) (answers s);
                              as2 = (if a_isAccepted answer \<noteq> True
                                     then updateOne a_id (a_id answer)
                                            (\<lambda>d. d\<lparr>a_isAccepted := True\<rparr>) as1
                                     else as1);
                              qs2 = (if q_isResolved question \<noteq> True
                                     then updateOne q_id (q_id question)
                                            (\<lambda>d. d\<lparr>q_isResolved := True\<rparr>) (questions s)
                                     else questions s)
                          in (Resp 200 ''Answer accepted successfully'',
                              s\<lparr>answers := as2, questions := qs2\<rparr>)))))"

definition deleteAnswer :: "objectId \<Rightarrow> objectId \<Rightarrow> store \<Rightarrow> response \<times> store" where
  "deleteAnswer i userId s =
     (case Answer_findById (answers s) i of
        None \<Rightarrow> (Resp 404 ''Answer not found'', s)
      | Some answer \<Rightarrow>
          (case Question_findById (questions s) (a_questionId answer) of
             None \<Rightarrow> (Resp 500 ''Server error deleting answer'', s)
           | Some question \<Rightarrow>
               (case Class_findById (classes s) (q_classId question) of
                  None \<Rightarrow> (Resp 500 ''Server error deleting answer'', s)
                | Some classDoc \<Rightarrow>
                    if \<not> (a_author answer = userId) \<and> \<not> isTeacher classDoc userId
                    then (Resp 403 ''Not authorized to delete this answer'', s)
                    else (Resp 200 ''Answer deleted successfully'',
                          s\<lparr>answers := updateOne a_id (a_id answer)
                              (\<lambda>d. d\<lparr>a_isActive := False\<rparr>) (answers s),
                            questions := updateOne q_id (a_questionId answer)
                              (\<lambda>d. d\<lparr>q_answers := filter (\<lambda>x. x \<noteq> a_id answer) (q_answers d)\<rparr>)
                              (questions s)\<rparr>))))"

subsection \<open>Requests and reachable stores\<close>

datatype request =
    CreateClass "nat \<Rightarrow> double" objectId objectId string string "string option"
  | JoinClass objectId string
  | UpdateClass objectId objectId "string option" "string option"
  | RemoveMember objectId objectId string
  | DeleteClass objectId objectId
  | GetQuestion objectId objectId
  | CreateQuestion objectId objectId objectId string string tagsInput
  | UpdateQuestion objectId objectId "string option" "string option" "string list option"
  | VoteQuestion objectId objectId string
  | DeleteQuestion objectId objectId
  | CreateAnswer objectId objectId objectId string
  | UpdateAnswer objectId objectId string
  | VoteAnswer objectId objectId string
  | AcceptAnswer objectId objectId
  | DeleteAnswer objectId objectId

fun handle :: "request \<Rightarrow> store \<Rightarrow> response \<times> store" where
  "handle (CreateClass random newId userId userRole name description) s =
     createClass random newId userId userRole name description s"
| "handle (JoinClass userId classCode) s = joinClass userId classCode s"
| "handle (UpdateClass i userId name description) s = updateClass i userId name description s"
| "handle (RemoveMember i authUser userId) s = removeMember i authUser userId s"
| "handle (DeleteClass i userId) s = deleteClass i userId s"
| "handle (GetQuestion i userId) s = getQuestion i userId s"
| "handle (CreateQuestion newId classId userId title description tags) s =
     createQuestion newId classId userId title description tags s"
| "handle (UpdateQuestion i userId title description tags) s =
     updateQuestion i userId title description tags s"
| "handle (VoteQuestion i userId type) s = voteQuestion i userId type s"
| "handle (DeleteQuestion i userId) s = deleteQuestion i userId s"
| "handle (CreateAnswer newId questionId userId text) s = createAnswer newId questionId userId text s"
| "handle (UpdateAnswer i userId text) s = updateAnswer i userId text s"
| "handle (VoteAnswer i userId type) s = voteAnswer i userId type s"
| "handle (AcceptAnswer i userId) s = acceptAnswer i userId s"
| "handle (DeleteAnswer i userId) s = deleteAnswer i userId s"

definition emptyStore :: store where
  "emptyStore = \<lparr>classes = [], questions = [], answers = []\<rparr>"

text \<open>\<open>Math.random\<close> returns a double from 0 up to, not including, 1.\<close>

definition randomOk :: "(nat \<Rightarrow> double) \<Rightarrow> bool" where
  "randomOk random = (\<forall>k. isDouble (random k) \<and> belowOne (random k))"

fun requestOk :: "request \<Rightarrow> bool" where
  "requestOk (CreateClass random newId userId userRole name description) = randomOk random"
| "requestOk _ = True"

inductive reachable :: "store \<Rightarrow> bool" where
  reachable_empty: "reachable emptyStore"
| reachable_step: "reachable s \<Longrightarrow> requestOk req \<Longrightarrow> reachable (snd (handle req s))"

text \<open>Running a list of requests in order.\<close>

fun run :: "request list \<Rightarrow> store \<Rightarrow> store" where
  "run [] s = s"
| "run (req # reqs) s = run reqs (snd (handle req s))"

subsection \<open>Predicates of the properties\<close>

text \<open>A well-formed class code: six characters of the alphabet.\<close>

definition validCode :: "string \<Rightarrow> bool" where
  "validCode code = (length code = 6 \<and> set code \<subseteq> set chars)"

text \<open>The k-th candidate of an allocation that starts with no call of \<open>Math.random\<close>
  made.\<close>

definition candidate :: "(nat \<Rightarrow> double) \<Rightarrow> nat \<Rightarrow> string" where
  "candidate random k = fst (generateClassCode random (6 * k))"

text \<open>A user is in at most one of the two voter arrays.\<close>

definition exclusive :: "objectId \<Rightarrow> objectId list \<times> objectId list \<Rightarrow> bool" where
  "exclusive userId v = (\<not> (userId \<in> set (fst v) \<and> userId \<in> set (snd v)))"

definition exclusiveQ :: "objectId \<Rightarrow> objectId \<Rightarrow> store \<Rightarrow> bool" where
  "exclusiveQ userId i s =
     (\<forall>q \<in> set (questions s). q_id q = i \<longrightarrow> exclusive userId (q_upvotes q, q_downvotes q))"

definition exclusiveA :: "objectId \<Rightarrow> objectId \<Rightarrow> store \<Rightarrow> bool" where
  "exclusiveA userId i s =
     (\<forall>a \<in> set (answers s). a_id a = i \<longrightarrow> exclusive userId (a_upvotes a, a_downvotes a))"

text \<open>A collection after a request, against the collection before it: the documents it
  had are in their places with their ids and their votes, and a document added after
  them has no votes.\<close>

definition votesKeptQ :: "questionDoc list \<Rightarrow> questionDoc list \<Rightarrow> bool" where
  "votesKeptQ qs qs' =
     (length qs \<le> length qs'
      \<and> (\<forall>k < length qs'.
            if k < length qs
            then q_id (qs' ! k) = q_id (qs ! k) \<and> q_upvotes (qs' ! k) = q_upvotes (qs ! k)
                 \<and> q_downvotes (qs' ! k) = q_downvotes (qs ! k)
            else q_upvotes (qs' ! k) = [] \<and> q_downvotes (qs' ! k) = []))"

definition votesKeptA :: "answerDoc list \<Rightarrow> answerDoc list \<Rightarrow> bool" where
  "votesKeptA as as' =
     (length as \<le> length as'
      \<and> (\<forall>k < length as'.
            if k < length as
            then a_id (as' ! k) = a_id (as ! k) \<and> a_upvotes (as' ! k) = a_upvotes (as ! k)
                 \<and> a_downvotes (as' ! k) = a_downvotes (as ! k)
            else a_upvotes (as' ! k) = [] \<and> a_downvotes (as' ! k) = []))"

text \<open>The questions after a request, against the questions before it: every question is
  in its place with its id, and is resolved if it was.\<close>

definition resolvedKept :: "questionDoc list \<Rightarrow> questionDoc list \<Rightarrow> bool" where
  "resolvedKept qs qs' =
     (length qs \<le> length qs'
      \<and> (\<forall>k < length qs.
            q_id (qs' ! k) = q_id (qs ! k) \<and> (q_isResolved (qs ! k) \<longrightarrow> q_isResolved (qs' ! k))))"

text \<open>The invariant of the class collection: ids and codes are unique, every code is
  well-formed, and the creator is a teacher member.\<close>

definition classInv :: "classDoc list \<Rightarrow> bool" where
  "classInv cs =
     (distinct (map c_id cs) \<and> distinct (map c_classCode cs)
      \<and> (\<forall>c \<in> set cs. (\<exists>code. c_classCode c = Some code \<and> validCode code)
            \<and> \<lparr>m_user = c_createdBy c, m_role = Teacher\<rparr> \<in> set (c_members c)))"

subsection \<open>Example documents\<close>

definition exampleClass :: classDoc where
  "exampleClass =
     \<lparr>c_id = ''c1'', c_name = ''Algebra I'', c_description = None,
      c_classCode = Some ''AAAAAA'', c_createdBy = ''u1'',
      c_members = [\<lparr>m_user = ''u1'', m_role = Teacher\<rparr>], c_isActive = True\<rparr>"

definition classStore :: store where
  "classStore = \<lparr>classes = [exampleClass], questions = [], answers = []\<rparr>"

text \<open>A second class, created while the first exists by a generator whose first
  candidate is the code of the first class: \<open>Math.random\<close> returns 0 six times and one
  half from then on.\<close>

definition secondClass :: classDoc where
  "secondClass =
     \<lparr>c_id = ''c2'', c_name = ''Geometry'', c_description = None,
      c_classCode = Some ''SSSSSS'', c_createdBy = ''u3'',
      c_members = [\<lparr>m_user = ''u3'', m_role = Teacher\<rparr>], c_isActive = True\<rparr>"

definition twoClassStore :: store where
  "twoClassStore = \<lparr>classes = [exampleClass, secondClass], questions = [], answers = []\<rparr>"

definition retryRandom :: "nat \<Rightarrow> double" where
  "retryRandom n = (if n < 6 then (0, 0) else (1, - 1))"




definition joinedClass :: classDoc where
  "joinedClass =
     exampleClass\<lparr>c_members := [\<lparr>m_user = ''u1'', m_role = Teacher\<rparr>,
                                \<lparr>m_user = ''u2'', m_role = Student\<rparr>]\<rparr>"

definition exampleQuestion :: questionDoc where
  "exampleQuestion =
     \<lparr>q_id = ''q1'', q_title = ''What is a group?'',
      q_description = ''Definition and examples'', q_tags = [], q_classId = ''c1'',
      q_author = ''u2'', q_answers = [''a1''], q_upvotes = [], q_downvotes = [],
      q_isResolved = True, q_isPinned = False, q_isActive = True, q_views = 0\<rparr>"

definition exampleAnswer :: answerDoc where
  "exampleAnswer =
     \<lparr>a_id = ''a1'', a_text = ''A set with an operation'', a_questionId = ''q1'',
      a_author = ''u1'', a_upvotes = [], a_downvotes = [], a_isAccepted = True,
      a_isActive = True\<rparr>"

text \<open>The store after: u1 creates the class, u2 joins it and asks the question, u1
  answers it, u2 accepts the answer.\<close>

definition qaStore :: store where
  "qaStore =
     \<lparr>classes = [joinedClass], questions = [exampleQuestion], answers = [exampleAnswer]\<rparr>"

definition qaRequests :: "request list" where
  "qaRequests =
     [CreateClass (\<lambda>n. (0, 0)) ''c1'' ''u1'' ''teacher'' ''Algebra I'' None,
      JoinClass ''u2'' ''AAAAAA'',
      CreateQuestion ''q1'' ''c1'' ''u2'' ''What is a group?'' ''Definition and examples'' NoTags,
      CreateAnswer ''a1'' ''q1'' ''u1'' ''A set with an operation'',
      AcceptAnswer ''a1'' ''u2'']"

section \<open>Properties\<close>

subsection \<open>Strings\<close>

lemma some_iff: "some p xs \<longleftrightarrow> (\<exists>x \<in> set xs. p x)"
  by (induction xs) auto

lemma chars_nospace: "\<forall>ch \<in> set chars. \<not> isSpace ch"
  by (simp add: chars_def isSpace_def)

lemma dropWhile_none: "\<forall>x \<in> set xs. \<not> p x \<Longrightarrow> dropWhile p xs = xs"
  by (cases xs) auto

lemma units_inj: "units a = units b \<Longrightarrow> a = b"
  unfolding units_def using inj_of_char [where 'a = nat]
  by (simp add: inj_on_def list.inj_map_strong)


















text \<open>A string of characters of the alphabet is its own uppercase and has nothing to
  trim.\<close>

lemma chars_upper: "\<forall>ch \<in> set chars. upperUnits ch = [of_char ch]"
  by (simp add: chars_def upperUnits_def)

lemma toUpperCase_code: "set code \<subseteq> set chars \<Longrightarrow> toUpperCase code = units code"
  using chars_upper by (induction code) (simp_all add: toUpperCase_def units_def)

lemma trim_code:
  assumes "set code \<subseteq> set chars"
  shows "trim code = code"
proof -
  from assms chars_nospace have "\<forall>ch \<in> set code. \<not> isSpace ch" by blast
  then show ?thesis by (simp add: trim_def dropWhile_none)
qed

subsection \<open>The product of a double and the length of the alphabet\<close>

lemma bitLength_le: "m < 2 ^ k \<Longrightarrow> bitLength m \<le> k"
proof (induction m arbitrary: k rule: bitLength.induct)
  case (1 m)
  show ?case
  proof (cases "m = 0")
    case True
    then show ?thesis by (simp add: bitLength.simps)
  next
    case False
    with 1(2) obtain j where k: "k = Suc j" by (cases k) auto
    with 1(2) have "m div 2 < 2 ^ j" by simp
    from 1(1) [OF False this] have "bitLength (m div 2) \<le> j" .
    with False k show ?thesis by (subst bitLength.simps) simp
  qed
qed

lemma bitLength_gt: "k < bitLength m \<Longrightarrow> 2 ^ k \<le> m"
  using bitLength_le [of m k] by (cases "m < 2 ^ k") auto

lemma roundShift_below:
  assumes "1 \<le> s" and "s \<le> 6" and "m + 36 \<le> 36 * x * 2 ^ s"
  shows "roundShift m s < 36 * x"
proof -
  define P :: nat where "P = 2 ^ s"
  define q where "q = m div P"
  define r where "r = m mod P"
  have m: "m = q * P + r" by (simp add: q_def r_def)
  from assms(2) have "(2::nat) ^ s \<le> 2 ^ 6" by (rule power_increasing) simp
  then have P64: "P \<le> 64" by (simp add: P_def)
  from assms(1) obtain j where s: "s = Suc j" by (cases s) auto
  then have half: "P = 2 * 2 ^ (s - 1)" by (simp add: P_def)
  have P0: "0 < P" by (simp add: P_def)
  from assms(3) have bound: "q * P + r + 36 \<le> 36 * x * P" by (simp add: m P_def)
  have down: "q < 36 * x"
  proof (rule ccontr)
    assume "\<not> q < 36 * x"
    then have "36 * x \<le> q" by simp
    then have "36 * x * P \<le> q * P" by (rule mult_le_mono1)
    with bound show False by simp
  qed
  have up: "q + 1 < 36 * x" if "\<not> r < 2 ^ (s - 1)"
  proof (rule ccontr)
    assume "\<not> q + 1 < 36 * x"
    then have "36 * x \<le> q + 1" by simp
    then have "36 * x * P \<le> (q + 1) * P" by (rule mult_le_mono1)
    then have "36 * x * P \<le> q * P + P" by (simp add: algebra_simps)
    with bound have "r + 36 \<le> P" by simp
    with that half P64 show False by simp
  qed
  show ?thesis
    using down up by (auto simp add: roundShift_def P_def [symmetric] q_def [symmetric] r_def [symmetric])
qed

text \<open>The product of a double below 1 and 36, rounded, is below 36.\<close>

lemma index_range:
  assumes "isDouble d" and "belowOne d"
  shows "0 \<le> floorDouble (mulDouble d 36) \<and> floorDouble (mulDouble d 36) < 36"
proof -
  obtain m e where d: "d = (m, e)" by (cases d)
  show ?thesis
  proof (cases "m = 0")
    case True
    with d show ?thesis
      by (simp add: mulDouble_def roundDouble_def floorDouble_def bitLength.simps)
  next
    case False
    with assms d have e: "e < 0" and m1: "m < 2 ^ nat (- e)" and m53: "m < 2 ^ 53"
      by (simp_all add: isDouble_def belowOne_def)
    define a where "a = nat (- e)"
    define M where "M = m * 36"
    from m1 have Ma: "M + 36 \<le> 36 * 2 ^ a" by (simp add: M_def a_def)
    show ?thesis
    proof (cases "bitLength M \<le> 53")
      case True
      from Ma have "M div 2 ^ a < 36" by (simp add: less_mult_imp_div_less)
      with True d e show ?thesis
        by (simp add: mulDouble_def roundDouble_def floorDouble_def M_def [symmetric] a_def [symmetric])
    next
      case False
      define s where "s = bitLength M - 53"
      from False have s1: "1 \<le> s" by (simp add: s_def)
      from m53 have "M < 2 ^ 59" by (simp add: M_def)
      then have "bitLength M \<le> 59" by (rule bitLength_le)
      then have s6: "s \<le> 6" by (simp add: s_def)
      from False have "53 < bitLength M" by simp
      then have M53: "2 ^ 53 \<le> M" by (rule bitLength_gt)
      have a48: "48 \<le> a"
      proof (rule ccontr)
        assume "\<not> 48 \<le> a"
        then have "a \<le> 47" by simp
        then have "(2::nat) ^ a \<le> 2 ^ 47" by (rule power_increasing) simp
        with Ma M53 show False by simp
      qed
      define t where "t = a - s"
      from a48 s6 have a: "a = t + s" and t: "0 < t" by (simp_all add: t_def)
      from Ma have "M + 36 \<le> 36 * 2 ^ t * 2 ^ s" by (simp add: a power_add)
      from roundShift_below [OF s1 s6 this] have q: "roundShift M s < 36 * 2 ^ t" .
      then have "roundShift M s div 2 ^ t < 36" by (simp add: less_mult_imp_div_less)
      moreover from e a t have "e + int s < 0" and "nat (- (e + int s)) = t"
        by (simp_all add: a_def)
      ultimately show ?thesis using False d
        by (simp add: mulDouble_def roundDouble_def floorDouble_def M_def [symmetric]
            s_def [symmetric])
    qed
  qed
qed

subsection \<open>The generator\<close>

lemma charAt_subset: "set (charAt s i) \<subseteq> set s"
  by (auto simp: charAt_def)

lemma genLoop_snd: "snd (genLoop random i result n) = n + (6 - i)"
  by (induction random i result n rule: genLoop.induct) (subst genLoop.simps, auto)

lemma genLoop_set: "set (fst (genLoop random i result n)) \<subseteq> set result \<union> set chars"
proof (induction random i result n rule: genLoop.induct)
  case (1 random i result n)
  show ?case
  proof (cases "i < 6")
    case True
    from 1[OF True] charAt_subset[of chars "floorDouble (mulDouble (random n) (length chars))"] True
    show ?thesis by (subst genLoop.simps) auto
  next
    case False
    then show ?thesis by (subst genLoop.simps) simp
  qed
qed

lemma charAt_chars:
  assumes "isDouble d" "belowOne d"
  shows "length (charAt chars (floorDouble (mulDouble d (length chars)))) = 1"
proof -
  have "length chars = 36" by (simp add: chars_def)
  with index_range[OF assms] show ?thesis by (simp add: charAt_def)
qed

lemma genLoop_length:
  "randomOk random \<Longrightarrow> length (fst (genLoop random i result n)) = length result + (6 - i)"
proof (induction random i result n rule: genLoop.induct)
  case (1 random i result n)
  show ?case
  proof (cases "i < 6")
    case True
    from 1(2) have "length (charAt chars (floorDouble (mulDouble (random n) (length chars)))) = 1"
      by (simp add: randomOk_def charAt_chars)
    with 1(1)[OF True 1(2)] True show ?thesis
      by (subst genLoop.simps) auto
  next
    case False
    then show ?thesis by (subst genLoop.simps) simp
  qed
qed

lemma generateClassCode_snd: "snd (generateClassCode random n) = n + 6"
  by (simp add: generateClassCode_def genLoop_snd)

lemma generateClassCode_set: "set (fst (generateClassCode random n)) \<subseteq> set chars"
  using genLoop_set[of random 0 "[]" n] by (simp add: generateClassCode_def)

lemma generateClassCode_valid: "randomOk random \<Longrightarrow> validCode (fst (generateClassCode random n))"
  using genLoop_length[of random 0 "[]" n] generateClassCode_set[of random n]
  by (simp add: validCode_def generateClassCode_def)

subsection \<open>The allocation loop\<close>

lemma allocLoop_stop:
  "isUnique \<or> maxAttempts \<le> attempts \<Longrightarrow>
     allocLoop random cs classCode isUnique attempts n = (classCode, isUnique, attempts, n)"
  by (subst allocLoop.simps) auto

lemma allocLoop_free:
  "\<not> isUnique \<Longrightarrow> attempts < maxAttempts \<Longrightarrow>
   findOneByCode cs (fst (generateClassCode random n)) = None \<Longrightarrow>
     allocLoop random cs classCode isUnique attempts n =
       (Some (fst (generateClassCode random n)), True, attempts + 1, n + 6)"
  by (subst allocLoop.simps) (simp add: Let_def allocLoop_stop generateClassCode_snd)

lemma allocLoop_taken:
  "\<not> isUnique \<Longrightarrow> attempts < maxAttempts \<Longrightarrow>
   findOneByCode cs (fst (generateClassCode random n)) \<noteq> None \<Longrightarrow>
     allocLoop random cs classCode isUnique attempts n =
       allocLoop random cs (Some (fst (generateClassCode random n))) False (attempts + 1) (n + 6)"
  by (subst allocLoop.simps) (auto simp: Let_def generateClassCode_snd)

lemma allocLoop_attempts:
  "attempts \<le> maxAttempts \<Longrightarrow>
     fst (snd (snd (allocLoop random cs classCode isUnique attempts n))) \<le> maxAttempts"
proof (induction random cs classCode isUnique attempts n rule: allocLoop.induct)
  case (1 random cs classCode isUnique attempts n)
  show ?case
  proof (cases "\<not> isUnique \<and> attempts < maxAttempts")
    case False
    then have "isUnique \<or> maxAttempts \<le> attempts" by auto
    then show ?thesis using 1(2) by (simp add: allocLoop_stop)
  next
    case True
    then show ?thesis
      using 1(1)[OF True refl refl]
      by (subst allocLoop.simps) (simp add: Let_def)
  qed
qed

text \<open>When the loop ends with the flag set, its code is the first free candidate it
  drew; when it ends with the flag clear, it used the whole budget and every candidate
  was taken.\<close>

lemma allocLoop_unique:
  "\<not> isUnique \<Longrightarrow> fst (snd (allocLoop random cs classCode isUnique attempts n)) \<Longrightarrow>
     \<exists>j < maxAttempts - attempts.
        fst (allocLoop random cs classCode isUnique attempts n)
            = Some (fst (generateClassCode random (n + 6 * j)))
       \<and> findOneByCode cs (fst (generateClassCode random (n + 6 * j))) = None"
proof (induction random cs classCode isUnique attempts n rule: allocLoop.induct)
  case (1 random cs classCode isUnique attempts n)
  show ?case
  proof (cases "attempts < maxAttempts")
    case False
    then show ?thesis using 1(2,3) by (simp add: allocLoop_stop)
  next
    case True
    show ?thesis
    proof (cases "findOneByCode cs (fst (generateClassCode random n)) = None")
      case free: True
      have "0 < maxAttempts - attempts" using True by simp
      moreover have "fst (allocLoop random cs classCode isUnique attempts n)
          = Some (fst (generateClassCode random (n + 6 * 0)))"
        using allocLoop_free[OF 1(2) True free] by simp
      ultimately show ?thesis using free by (intro exI[of _ 0]) simp
    next
      case taken: False
      note eq = allocLoop_taken[OF 1(2) True taken]
      from 1(1)[OF _ refl refl] 1(2,3) True taken eq
      obtain j where j: "j < maxAttempts - (attempts + 1)"
        "fst (allocLoop random cs classCode isUnique attempts n)
            = Some (fst (generateClassCode random (n + 6 + 6 * j)))"
        "findOneByCode cs (fst (generateClassCode random (n + 6 + 6 * j))) = None"
        by (auto simp: generateClassCode_snd)
      have "n + 6 + 6 * j = n + 6 * Suc j" by simp
      with j have "Suc j < maxAttempts - attempts
        \<and> fst (allocLoop random cs classCode isUnique attempts n)
            = Some (fst (generateClassCode random (n + 6 * Suc j)))
        \<and> findOneByCode cs (fst (generateClassCode random (n + 6 * Suc j))) = None"
        by (simp only:) simp
      then show ?thesis by blast
    qed
  qed
qed

lemma allocLoop_exhausted:
  "\<not> isUnique \<Longrightarrow> attempts \<le> maxAttempts \<Longrightarrow>
   \<not> fst (snd (allocLoop random cs classCode isUnique attempts n)) \<Longrightarrow>
     (\<forall>k < maxAttempts - attempts.
           findOneByCode cs (fst (generateClassCode random (n + 6 * k))) \<noteq> None)"
proof (induction random cs classCode isUnique attempts n rule: allocLoop.induct)
  case (1 random cs classCode isUnique attempts n)
  show ?case
  proof (cases "attempts < maxAttempts")
    case False
    then show ?thesis using 1(2,3) by simp
  next
    case True
    show ?thesis
    proof (cases "findOneByCode cs (fst (generateClassCode random n)) = None")
      case free: True
      show ?thesis using allocLoop_free[OF 1(2) True free] 1(4) by simp
    next
      case taken: False
      note eq = allocLoop_taken[OF 1(2) True taken]
      have ih: "\<forall>k < maxAttempts - (attempts + 1).
           findOneByCode cs (fst (generateClassCode random (n + 6 + 6 * k))) \<noteq> None"
        using 1(1)[OF _ refl refl] 1(2,4) True taken eq by (simp add: generateClassCode_snd)
      have "findOneByCode cs (fst (generateClassCode random (n + 6 * k))) \<noteq> None"
        if "k < maxAttempts - attempts" for k
      proof (cases k)
        case 0
        then show ?thesis using taken by simp
      next
        case (Suc j)
        then have "j < maxAttempts - (attempts + 1)" using that by simp
        then show ?thesis using ih Suc by (simp add: add.assoc)
      qed
      then show ?thesis by blast
    qed
  qed
qed

text \<open>The hook on a new document with no code.\<close>

lemma preSaveClassCode_free:
  assumes "\<not> truthy (c_classCode this)"
    and "\<exists>k < maxAttempts. findOneByCode cs (candidate random k) = None"
  shows "\<exists>k < maxAttempts. findOneByCode cs (candidate random k) = None
           \<and> preSaveClassCode random cs True this
               = Inr (this\<lparr>c_classCode := Some (candidate random k)\<rparr>)"
proof -
  obtain classCode isUnique attempts n
    where r: "allocLoop random cs None False 0 0 = (classCode, isUnique, attempts, n)"
    by (cases "allocLoop random cs None False 0 0") auto
  have "isUnique"
  proof (rule ccontr)
    assume "\<not> isUnique"
    with allocLoop_exhausted[of False 0 random cs None 0] r
    have "\<forall>k < maxAttempts. findOneByCode cs (candidate random k) \<noteq> None"
      by (simp add: candidate_def)
    with assms(2) show False by blast
  qed
  with allocLoop_unique[of False random cs None 0 0] r
  obtain j where j: "j < maxAttempts" "classCode = Some (candidate random j)"
    "findOneByCode cs (candidate random j) = None"
    by (auto simp: candidate_def)
  from assms(1) r \<open>isUnique\<close> j show ?thesis
    by (intro exI[of _ j]) (simp add: preSaveClassCode_def)
qed

lemma preSaveClassCode_exhausted:
  assumes "\<not> truthy (c_classCode this)"
    and "\<forall>k < maxAttempts. findOneByCode cs (candidate random k) \<noteq> None"
  shows "preSaveClassCode random cs True this
           = Inl ''Failed to generate unique class code after multiple attempts''"
proof -
  obtain classCode isUnique attempts n
    where r: "allocLoop random cs None False 0 0 = (classCode, isUnique, attempts, n)"
    by (cases "allocLoop random cs None False 0 0") auto
  have "\<not> isUnique"
  proof
    assume "isUnique"
    with allocLoop_unique[of False random cs None 0 0] r
    obtain j where "j < maxAttempts" "findOneByCode cs (candidate random j) = None"
      by (auto simp: candidate_def)
    with assms(2) show False by blast
  qed
  with assms(1) r show ?thesis
    by (simp add: preSaveClassCode_def)
qed

text \<open>C1. The budget of the allocation loop is ten attempts, and the loop makes at most
  ten on every input. Run on a new class with no code, the hook returns the class with a
  code that no class of the store holds when one of its ten candidates is free, and fails
  with the allocation error when all ten are taken. The loop and the hook are total
  functions: they return on every input.\<close>

theorem allocator_bounded:
  assumes "\<not> truthy (c_classCode this)"
  shows "maxAttempts = 10
    \<and> fst (snd (snd (allocLoop random cs None False 0 0))) \<le> maxAttempts
    \<and> ((\<exists>k < maxAttempts. findOneByCode cs (candidate random k) = None) \<longrightarrow>
          (\<exists>code. preSaveClassCode random cs True this = Inr (this\<lparr>c_classCode := Some code\<rparr>)
                 \<and> findOneByCode cs code = None))
    \<and> ((\<forall>k < maxAttempts. findOneByCode cs (candidate random k) \<noteq> None) \<longrightarrow>
          preSaveClassCode random cs True this
            = Inl ''Failed to generate unique class code after multiple attempts'')"
proof (intro conjI impI)
  show "maxAttempts = 10" by (simp add: maxAttempts_def)
  show "fst (snd (snd (allocLoop random cs None False 0 0))) \<le> maxAttempts"
    by (rule allocLoop_attempts) simp
next
  assume "\<exists>k < maxAttempts. findOneByCode cs (candidate random k) = None"
  from preSaveClassCode_free[OF assms this]
  show "\<exists>code. preSaveClassCode random cs True this = Inr (this\<lparr>c_classCode := Some code\<rparr>)
                 \<and> findOneByCode cs code = None"
    by blast
next
  assume "\<forall>k < maxAttempts. findOneByCode cs (candidate random k) \<noteq> None"
  from preSaveClassCode_exhausted[OF assms this]
  show "preSaveClassCode random cs True this
            = Inl ''Failed to generate unique class code after multiple attempts''" .
qed

lemma candidate_zero: "candidate (\<lambda>n. (0, 0)) k = ''AAAAAA''"
  by (simp add: candidate_def generateClassCode_def genLoop.simps chars_def charAt_def mulDouble_def roundDouble_def floorDouble_def
        bitLength.simps)

theorem allocator_bounded_witness:
  "\<not> truthy (c_classCode (exampleClass\<lparr>c_classCode := None\<rparr>))
   \<and> findOneByCode [exampleClass] (candidate (\<lambda>n. (0, 0)) 9) \<noteq> None
   \<and> preSaveClassCode (\<lambda>n. (0, 0)) [exampleClass] True (exampleClass\<lparr>c_classCode := None\<rparr>)
        = Inl ''Failed to generate unique class code after multiple attempts''
   \<and> findOneByCode [] (candidate (\<lambda>n. (0, 0)) 0) = None
   \<and> (\<exists>code. preSaveClassCode (\<lambda>n. (0, 0)) [] True (exampleClass\<lparr>c_classCode := None\<rparr>)
           = Inr (exampleClass\<lparr>c_classCode := Some code\<rparr>))"
proof -
  have t: "\<not> truthy (c_classCode (exampleClass\<lparr>c_classCode := None\<rparr>))"
    by (simp add: truthy_def)
  have taken: "\<forall>k < maxAttempts. findOneByCode [exampleClass] (candidate (\<lambda>n. (0, 0)) k) \<noteq> None"
    by (simp add: candidate_zero findOneByCode_def exampleClass_def)
  have free: "findOneByCode [] (candidate (\<lambda>n. (0, 0)) 0) = None"
    by (simp add: findOneByCode_def)
  then have ex: "\<exists>k < maxAttempts. findOneByCode [] (candidate (\<lambda>n. (0, 0)) k) = None"
    by (intro exI[of _ 0]) (simp add: maxAttempts_def)
  from allocator_bounded[OF t, of "\<lambda>n. (0, 0)" "[exampleClass]"] taken
  have a: "preSaveClassCode (\<lambda>n. (0, 0)) [exampleClass] True (exampleClass\<lparr>c_classCode := None\<rparr>)
        = Inl ''Failed to generate unique class code after multiple attempts''"
    by blast
  from allocator_bounded[OF t, of "\<lambda>n. (0, 0)" "[]"] ex
  have b: "\<exists>code. preSaveClassCode (\<lambda>n. (0, 0)) [] True (exampleClass\<lparr>c_classCode := None\<rparr>)
           = Inr (exampleClass\<lparr>c_classCode := None, c_classCode := Some code\<rparr>)"
    by blast
  from taken have nine: "findOneByCode [exampleClass] (candidate (\<lambda>n. (0, 0)) 9) \<noteq> None"
    by (simp add: maxAttempts_def)
  from t nine a free b show ?thesis by simp
qed

subsection \<open>Access checks\<close>

text \<open>C6. \<open>isMember\<close> is true exactly when the user id occurs as the user of an entry
  of the member list, \<open>isTeacher\<close> exactly when it occurs in an entry with role teacher;
  the two middlewares pass exactly the found classes for which the check holds.\<close>

theorem access_predicates:
  "(isMember classDoc userId \<longleftrightarrow> userId \<in> set (map m_user (c_members classDoc)))
   \<and> (isTeacher classDoc userId \<longleftrightarrow>
        \<lparr>m_user = userId, m_role = Teacher\<rparr> \<in> set (c_members classDoc))
   \<and> (requireClassMember s i userId = Inr classDoc \<longleftrightarrow>
        Class_findById (classes s) i = Some classDoc
        \<and> userId \<in> set (map m_user (c_members classDoc)))
   \<and> (requireClassTeacher s i userId = Inr classDoc \<longleftrightarrow>
        Class_findById (classes s) i = Some classDoc
        \<and> \<lparr>m_user = userId, m_role = Teacher\<rparr> \<in> set (c_members classDoc))"
proof -
  have m: "isMember c u \<longleftrightarrow> u \<in> set (map m_user (c_members c))" for c u
    by (auto simp: isMember_def some_iff)
  have t: "isTeacher c u \<longleftrightarrow> \<lparr>m_user = u, m_role = Teacher\<rparr> \<in> set (c_members c)" for c u
  proof
    assume "isTeacher c u"
    then obtain x where x: "x \<in> set (c_members c)" "m_user x = u" "m_role x = Teacher"
      by (auto simp: isTeacher_def some_iff)
    have "x = \<lparr>m_user = u, m_role = Teacher\<rparr>" using x(2,3) by (cases x) simp
    with x(1) show "\<lparr>m_user = u, m_role = Teacher\<rparr> \<in> set (c_members c)" by simp
  next
    assume "\<lparr>m_user = u, m_role = Teacher\<rparr> \<in> set (c_members c)"
    then show "isTeacher c u"
      by (auto simp: isTeacher_def some_iff intro!: bexI[of _ "\<lparr>m_user = u, m_role = Teacher\<rparr>"])
  qed
  have rm: "requireClassMember s i userId = Inr classDoc \<longleftrightarrow>
        Class_findById (classes s) i = Some classDoc \<and> isMember classDoc userId"
    by (auto simp: requireClassMember_def split: option.splits)
  have rt: "requireClassTeacher s i userId = Inr classDoc \<longleftrightarrow>
        Class_findById (classes s) i = Some classDoc \<and> isTeacher classDoc userId"
    by (auto simp: requireClassTeacher_def split: option.splits)
  show ?thesis
    unfolding rm rt using m t by blast
qed

theorem access_predicates_witness:
  "isMember exampleClass ''u1'' \<and> \<not> isMember exampleClass ''u2''
   \<and> isTeacher exampleClass ''u1''
   \<and> requireClassTeacher \<lparr>classes = [exampleClass], questions = [], answers = []\<rparr> ''c1'' ''u1''
        = Inr exampleClass"
proof -
  let ?s = "\<lparr>classes = [exampleClass], questions = [], answers = []\<rparr>"
  have a: "''u1'' \<in> set (map m_user (c_members exampleClass))"
    and b: "''u2'' \<notin> set (map m_user (c_members exampleClass))"
    and c: "\<lparr>m_user = ''u1'', m_role = Teacher\<rparr> \<in> set (c_members exampleClass)"
    and d: "Class_findById (classes ?s) ''c1'' = Some exampleClass"
    by (simp_all add: exampleClass_def Class_findById_def)
  from access_predicates[of exampleClass "''u1''" ?s "''c1''"] a c d
  have "isMember exampleClass ''u1''" "isTeacher exampleClass ''u1''"
    "requireClassTeacher ?s ''c1'' ''u1'' = Inr exampleClass"
    by blast+
  moreover from access_predicates[of exampleClass "''u2''" ?s "''c1''"] b
  have "\<not> isMember exampleClass ''u2''" by blast
  ultimately show ?thesis by blast
qed

subsection \<open>Lookups and updates\<close>

lemma find_in_set: "find p xs = Some x \<Longrightarrow> x \<in> set xs \<and> p x"
  by (induction xs) (auto split: if_splits)

lemma find_map: "find p (map g xs) = map_option g (find (\<lambda>x. p (g x)) xs)"
  by (induction xs) auto

lemma distinct_map_eq:
  "distinct (map f xs) \<Longrightarrow> x \<in> set xs \<Longrightarrow> y \<in> set xs \<Longrightarrow> f x = f y \<Longrightarrow> x = y"
  by (auto simp: distinct_map dest: inj_onD)

lemma find_unique:
  assumes "distinct (map f xs)" "x \<in> set xs"
  shows "find (\<lambda>y. f y = f x) xs = Some x"
proof (cases "find (\<lambda>y. f y = f x) xs")
  case None
  with assms(2) show ?thesis by (auto simp: find_None_iff)
next
  case (Some y)
  from find_in_set[OF Some] assms show ?thesis
    using Some distinct_map_eq[of f xs y x] by auto
qed

lemma map_updateOne:
  "(\<And>d. d \<in> set docs \<Longrightarrow> idOf d = i \<Longrightarrow> g (f d) = g d) \<Longrightarrow>
     map g (updateOne idOf i f docs) = map g docs"
  by (induction docs) (auto simp: updateOne_def)

lemma set_updateOne:
  "d' \<in> set (updateOne idOf i f docs) \<Longrightarrow>
     \<exists>d \<in> set docs. d' = (if idOf d = i then f d else d)"
  by (auto simp: updateOne_def)

lemma length_updateOne: "length (updateOne idOf i f docs) = length docs"
  by (simp add: updateOne_def)

lemma nth_updateOne:
  "k < length docs \<Longrightarrow>
     updateOne idOf i f docs ! k = (if idOf (docs ! k) = i then f (docs ! k) else docs ! k)"
  by (simp add: updateOne_def)

lemma findOneByUnits_units: "findOneByUnits cs (units code) = findOneByCode cs code"
proof -
  have "(map_option units v = Some (units code)) = (v = Some code)" for v
    by (cases v) (auto dest: units_inj)
  then show ?thesis by (simp add: findOneByUnits_def findOneByCode_def)
qed

subsection \<open>The invariant of the class collection\<close>

lemma classInv_updateOne:
  assumes inv: "classInv cs"
    and f: "\<And>d. d \<in> set cs \<Longrightarrow> c_id d = i \<Longrightarrow>
              c_id (f d) = c_id d \<and> c_classCode (f d) = c_classCode d
              \<and> c_createdBy (f d) = c_createdBy d
              \<and> \<lparr>m_user = c_createdBy d, m_role = Teacher\<rparr> \<in> set (c_members (f d))"
  shows "classInv (updateOne c_id i f cs)"
proof -
  have ids: "map c_id (updateOne c_id i f cs) = map c_id cs"
    by (rule map_updateOne) (simp add: f)
  have codes: "map c_classCode (updateOne c_id i f cs) = map c_classCode cs"
    by (rule map_updateOne) (simp add: f)
  have each: "(\<exists>code. c_classCode c' = Some code \<and> validCode code)
      \<and> \<lparr>m_user = c_createdBy c', m_role = Teacher\<rparr> \<in> set (c_members c')"
    if "c' \<in> set (updateOne c_id i f cs)" for c'
  proof -
    from set_updateOne[OF that] obtain d where d: "d \<in> set cs"
      "c' = (if c_id d = i then f d else d)" by blast
    from inv d(1) have old: "(\<exists>code. c_classCode d = Some code \<and> validCode code)
      \<and> \<lparr>m_user = c_createdBy d, m_role = Teacher\<rparr> \<in> set (c_members d)"
      by (simp add: classInv_def)
    show ?thesis
    proof (cases "c_id d = i")
      case True
      with d f[OF d(1) True] old show ?thesis by simp
    next
      case False
      with d old show ?thesis by simp
    qed
  qed
  from inv ids codes each show ?thesis by (simp add: classInv_def)
qed

lemma findById_same:
  assumes "classInv cs" "Class_findById cs i = Some c" "d \<in> set cs" "c_id d = i"
  shows "d = c"
proof -
  from find_in_set[OF assms(2)[unfolded Class_findById_def]]
  have "c \<in> set cs" "c_id c = i" by auto
  with assms show ?thesis
    using distinct_map_eq[of c_id cs d c] by (simp add: classInv_def)
qed

lemma preSaveClassCode_new:
  assumes "\<not> truthy (c_classCode this)" "preSaveClassCode random cs True this = Inr d"
  shows "\<exists>k. d = this\<lparr>c_classCode := Some (candidate random k)\<rparr>"
proof (cases "\<exists>k < maxAttempts. findOneByCode cs (candidate random k) = None")
  case True
  from preSaveClassCode_free[OF assms(1) True] assms(2) show ?thesis by auto
next
  case False
  then have "\<forall>k < maxAttempts. findOneByCode cs (candidate random k) \<noteq> None" by simp
  from preSaveClassCode_exhausted[OF assms(1) this] assms(2) show ?thesis by simp
qed

lemma candidate_valid: "randomOk random \<Longrightarrow> validCode (candidate random k)"
  by (simp add: candidate_def generateClassCode_valid)

lemma classInv_createClass:
  assumes "classInv (classes s)" "randomOk random"
  shows "classInv (classes (snd (createClass random newId userId userRole name description s)))"
proof -
  let ?d0 = "\<lparr>c_id = newId, c_name = trim name, c_description = map_option trim description,
      c_classCode = None, c_createdBy = userId, c_members = [], c_isActive = True\<rparr>"
  have new: "classInv cs'"
    if "Class_saveNew random (classes s) ?d0 = Inr cs'" for cs'
  proof -
    from that obtain d1 where d1: "preSaveClassCode random (classes s) True ?d0 = Inr d1"
      "Class_insert (classes s) (preSaveCreator True d1) = Inr cs'"
      by (auto simp: Class_saveNew_def split: sum.splits)
    have "\<not> truthy (c_classCode ?d0)" by (simp add: truthy_def)
    from preSaveClassCode_new[OF this d1(1)] obtain k
      where k: "d1 = ?d0\<lparr>c_classCode := Some (candidate random k)\<rparr>" by blast
    let ?d = "preSaveCreator True d1"
    from d1(2) have fresh: "c_id ?d \<notin> set (map c_id (classes s))"
      "c_classCode ?d \<notin> set (map c_classCode (classes s))" and cs': "cs' = classes s @ [?d]"
      by (auto simp: Class_insert_def split: if_splits)
    have dprops: "c_classCode ?d = Some (candidate random k)"
      "\<lparr>m_user = c_createdBy ?d, m_role = Teacher\<rparr> \<in> set (c_members ?d)"
      by (simp_all add: k preSaveCreator_def)
    from assms(1) fresh cs' dprops candidate_valid[OF assms(2), of k]
    show ?thesis by (auto simp: classInv_def)
  qed
  show ?thesis
    using assms(1) new
    by (auto simp: createClass_def Let_def split: option.splits sum.splits)
qed

lemma classInv_joinClass:
  assumes "classInv (classes s)"
  shows "classInv (classes (snd (joinClass userId classCode s)))"
proof -
  have upd: "classInv (updateOne c_id (c_id classDoc)
        (\<lambda>d. d\<lparr>c_members := c_members classDoc @ [\<lparr>m_user = userId, m_role = Student\<rparr>]\<rparr>)
        (classes s))"
    if "findOneByUnits (classes s) key = Some classDoc" for key classDoc
  proof (rule classInv_updateOne[OF assms])
    fix d assume d: "d \<in> set (classes s)" "c_id d = c_id classDoc"
    from find_in_set[OF that[unfolded findOneByUnits_def]] have "classDoc \<in> set (classes s)" by simp
    with assms d have "d = classDoc"
      using distinct_map_eq[of c_id "classes s" d classDoc] by (simp add: classInv_def)
    with assms d(1) show "c_id (d\<lparr>c_members := c_members classDoc @ [\<lparr>m_user = userId, m_role = Student\<rparr>]\<rparr>) = c_id d
      \<and> c_classCode (d\<lparr>c_members := c_members classDoc @ [\<lparr>m_user = userId, m_role = Student\<rparr>]\<rparr>) = c_classCode d
      \<and> c_createdBy (d\<lparr>c_members := c_members classDoc @ [\<lparr>m_user = userId, m_role = Student\<rparr>]\<rparr>) = c_createdBy d
      \<and> \<lparr>m_user = c_createdBy d, m_role = Teacher\<rparr>
          \<in> set (c_members (d\<lparr>c_members := c_members classDoc @ [\<lparr>m_user = userId, m_role = Student\<rparr>]\<rparr>))"
      by (simp add: classInv_def)
  qed
  show ?thesis
    using assms upd
    by (auto simp: joinClass_def Let_def split: option.splits)
qed

lemma classInv_updateClass:
  assumes "classInv (classes s)"
  shows "classInv (classes (snd (updateClass i userId name description s)))"
proof -
  have upd: "classInv (updateOne c_id i
        (\<lambda>d. d\<lparr>c_name := n d, c_description := e d\<rparr>) (classes s))" for n e
    by (rule classInv_updateOne[OF assms]) (use assms in \<open>auto simp: classInv_def\<close>)
  show ?thesis
    using assms upd
    by (auto simp: updateClass_def Let_def split: sum.splits)
qed

lemma classInv_removeMember:
  assumes "classInv (classes s)"
  shows "classInv (classes (snd (removeMember i authUser userId s)))"
proof -
  have upd: "classInv (updateOne c_id (c_id reqClass)
        (\<lambda>d. d\<lparr>c_members := filter (\<lambda>member. m_user member \<noteq> userId) (c_members reqClass)\<rparr>)
        (classes s))"
    if "requireClassTeacher s i authUser = Inr reqClass" "c_createdBy reqClass \<noteq> userId"
    for reqClass
  proof (rule classInv_updateOne[OF assms])
    fix d assume d: "d \<in> set (classes s)" "c_id d = c_id reqClass"
    from that(1) have fnd: "Class_findById (classes s) i = Some reqClass"
      by (auto simp: requireClassTeacher_def split: option.splits if_splits)
    from find_in_set[OF fnd[unfolded Class_findById_def]] have "c_id reqClass = i" by simp
    with findById_same[OF assms fnd d(1)] d(2) have "d = reqClass" by simp
    with assms d(1) that(2)
    show "c_id (d\<lparr>c_members := filter (\<lambda>member. m_user member \<noteq> userId) (c_members reqClass)\<rparr>) = c_id d
      \<and> c_classCode (d\<lparr>c_members := filter (\<lambda>member. m_user member \<noteq> userId) (c_members reqClass)\<rparr>) = c_classCode d
      \<and> c_createdBy (d\<lparr>c_members := filter (\<lambda>member. m_user member \<noteq> userId) (c_members reqClass)\<rparr>) = c_createdBy d
      \<and> \<lparr>m_user = c_createdBy d, m_role = Teacher\<rparr>
          \<in> set (c_members (d\<lparr>c_members := filter (\<lambda>member. m_user member \<noteq> userId) (c_members reqClass)\<rparr>))"
      by (simp add: classInv_def)
  qed
  show ?thesis
    using assms upd
    by (auto simp: removeMember_def split: sum.splits)
qed

lemma classInv_deleteClass:
  assumes "classInv (classes s)"
  shows "classInv (classes (snd (deleteClass i userId s)))"
proof -
  have "classInv (filter p cs)" if "classInv cs" for p cs
    using that by (auto simp: classInv_def distinct_map_filter)
  with assms show ?thesis
    by (auto simp: deleteClass_def split: option.splits)
qed

text \<open>The question and answer routes leave the class collection as it is.\<close>

lemma classes_question_routes:
  "classes (snd (getQuestion i userId s)) = classes s"
  "classes (snd (createQuestion newId classId userId title description tags s)) = classes s"
  "classes (snd (updateQuestion i userId otitle odescription otags s)) = classes s"
  "classes (snd (voteQuestion i userId type s)) = classes s"
  "classes (snd (deleteQuestion i userId s)) = classes s"
  by (auto simp: getQuestion_def createQuestion_def updateQuestion_def voteQuestion_def
      deleteQuestion_def Let_def split: option.splits sum.splits)

lemma classes_answer_routes:
  "classes (snd (createAnswer newId questionId userId text s)) = classes s"
  "classes (snd (updateAnswer i userId text s)) = classes s"
  "classes (snd (voteAnswer i userId type s)) = classes s"
  "classes (snd (acceptAnswer i userId s)) = classes s"
  "classes (snd (deleteAnswer i userId s)) = classes s"
  by (auto simp: createAnswer_def updateAnswer_def voteAnswer_def acceptAnswer_def
      deleteAnswer_def Let_def split: option.splits sum.splits)

lemma classInv_handle:
  "classInv (classes s) \<Longrightarrow> requestOk req \<Longrightarrow> classInv (classes (snd (handle req s)))"
  by (cases req)
    (simp_all add: classInv_createClass classInv_joinClass classInv_updateClass
      classInv_removeMember classInv_deleteClass classes_question_routes classes_answer_routes)

lemma reachable_classInv: "reachable s \<Longrightarrow> classInv (classes s)"
proof (induction rule: reachable.induct)
  case reachable_empty
  show ?case by (simp add: emptyStore_def classInv_def)
next
  case (reachable_step s req)
  then show ?case by (simp add: classInv_handle)
qed

subsection \<open>A reachable store\<close>

lemma generate_zero: "generateClassCode (\<lambda>n. (0, 0)) n = (''AAAAAA'', n + 6)"
  by (simp add: generateClassCode_def genLoop.simps chars_def charAt_def mulDouble_def roundDouble_def floorDouble_def
        bitLength.simps)

text \<open>A product that is rounded: 36 times 4253399648072135 / 2^52 is below 34, and the
  double nearest to it is 34.\<close>

lemma generate_rounded:
  "generateClassCode (\<lambda>n. (4253399648072135, - 52)) n = (''888888'', n + 6)"
  by (simp add: generateClassCode_def roundShift_def genLoop.simps chars_def charAt_def mulDouble_def roundDouble_def floorDouble_def
        bitLength.simps)

lemma randomOk_rounded: "randomOk (\<lambda>n. (4253399648072135, - 52))"
  by (simp add: randomOk_def isDouble_def belowOne_def)

lemma createClass_example:
  "createClass (\<lambda>n. (0, 0)) ''c1'' ''u1'' ''teacher'' ''Algebra I'' None emptyStore
     = (Resp 201 ''Class created successfully'', classStore)"
proof -
  have loop: "allocLoop (\<lambda>n. (0, 0)) [] None False 0 0 = (Some ''AAAAAA'', True, 1, 6)"
    using allocLoop_free[of False 0 "[]" "\<lambda>n. (0, 0)" 0 None]
    by (simp add: generate_zero findOneByCode_def maxAttempts_def)
  have tr: "trim ''Algebra I'' = ''Algebra I''"
    by (simp add: trim_def isSpace_def)
  show ?thesis
    by (simp add: createClass_def requireRole_def tr optTooLong_def Class_saveNew_def
        preSaveClassCode_def truthy_def loop preSaveCreator_def Class_insert_def
        emptyStore_def classStore_def exampleClass_def)
qed

lemma randomOk_zero: "randomOk (\<lambda>n. (0, 0))"
  by (simp add: randomOk_def isDouble_def belowOne_def)

lemma reachable_classStore: "reachable classStore"
proof -
  have "reachable (snd (handle (CreateClass (\<lambda>n. (0, 0)) ''c1'' ''u1'' ''teacher'' ''Algebra I'' None)
      emptyStore))"
    by (rule reachable_step[OF reachable_empty]) (simp add: randomOk_zero)
  then show ?thesis by (simp add: createClass_example)
qed

lemma joinClass_example:
  "joinClass ''u2'' ''AAAAAA'' classStore
     = (Resp 200 ''Successfully joined class'', classStore\<lparr>classes := [joinedClass]\<rparr>)"
proof -
  have "trim ''AAAAAA'' = ''AAAAAA''" by (simp add: trim_def isSpace_def)
  moreover have "toUpperCase ''AAAAAA'' = units ''AAAAAA''"
    by (simp add: toUpperCase_def units_def upperUnits_def)
  ultimately show ?thesis
    by (simp add: joinClass_def findOneByUnits_def classStore_def exampleClass_def
        updateOne_def joinedClass_def)
qed

text \<open>A second class is created while the first exists. The first candidate is the code
  of the first class, so the loop draws again; the class is saved with the second
  candidate. With a generator that repeats the code of the first class at every attempt,
  the creation fails and the store stays as it is.\<close>

lemma generate_retry:
  "generateClassCode retryRandom 0 = (''AAAAAA'', 6)"
  "generateClassCode retryRandom 6 = (''SSSSSS'', 12)"
  by (simp_all add: generateClassCode_def retryRandom_def genLoop.simps chars_def charAt_def mulDouble_def roundDouble_def floorDouble_def
        bitLength.simps)

lemma randomOk_retry: "randomOk retryRandom"
  by (simp add: randomOk_def retryRandom_def isDouble_def belowOne_def)

lemma createClass_second:
  "createClass retryRandom ''c2'' ''u3'' ''teacher'' ''Geometry'' None classStore
     = (Resp 201 ''Class created successfully'', twoClassStore)"
proof -
  have taken: "findOneByCode [exampleClass] (fst (generateClassCode retryRandom 0)) \<noteq> None"
    by (simp add: generate_retry findOneByCode_def exampleClass_def)
  have free: "findOneByCode [exampleClass] (fst (generateClassCode retryRandom 6)) = None"
    by (simp add: generate_retry findOneByCode_def exampleClass_def)
  have "allocLoop retryRandom [exampleClass] None False 0 0
      = allocLoop retryRandom [exampleClass] (Some ''AAAAAA'') False 1 6"
    using allocLoop_taken[OF _ _ taken, of False 0 None]
    by (simp add: maxAttempts_def generate_retry)
  also have "\<dots> = (Some ''SSSSSS'', True, 2, 12)"
    using allocLoop_free[OF _ _ free, of False 1 "Some ''AAAAAA''"]
    by (simp add: maxAttempts_def generate_retry)
  finally have loop: "allocLoop retryRandom [exampleClass] None False 0 0
      = (Some ''SSSSSS'', True, 2, 12)" .
  have tr: "trim ''Geometry'' = ''Geometry''"
    by (simp add: trim_def isSpace_def)
  have "Class_saveNew retryRandom [exampleClass]
      \<lparr>c_id = ''c2'', c_name = ''Geometry'', c_description = None, c_classCode = None,
       c_createdBy = ''u3'', c_members = [], c_isActive = True\<rparr>
      = Inr [exampleClass, secondClass]"
    by (simp add: Class_saveNew_def preSaveClassCode_def truthy_def loop preSaveCreator_def
        Class_insert_def) (simp add: exampleClass_def secondClass_def)
  then show ?thesis
    by (simp add: createClass_def requireRole_def tr optTooLong_def classStore_def
        twoClassStore_def)
qed

lemma reachable_twoClassStore: "reachable twoClassStore"
proof -
  have "reachable (snd (handle (CreateClass retryRandom ''c2'' ''u3'' ''teacher'' ''Geometry'' None)
      classStore))"
    by (rule reachable_step[OF reachable_classStore]) (simp add: randomOk_retry)
  then show ?thesis by (simp add: createClass_second)
qed

lemma allocLoop_example:
  "allocLoop (\<lambda>n. (0, 0)) [exampleClass] None False 0 0 = (Some ''AAAAAA'', False, 10, 60)"
  by (simp add: allocLoop.simps maxAttempts_def generate_zero findOneByCode_def exampleClass_def)

lemma createClass_collision:
  "createClass (\<lambda>n. (0, 0)) ''c2'' ''u3'' ''teacher'' ''Geometry'' None classStore
     = (Resp 500 ''Server error creating class'', classStore)"
proof -
  have tr: "trim ''Geometry'' = ''Geometry''"
    by (simp add: trim_def isSpace_def)
  show ?thesis
    by (simp add: createClass_def requireRole_def tr optTooLong_def Class_saveNew_def
        preSaveClassCode_def truthy_def allocLoop_example classStore_def)
qed

subsection \<open>Class codes\<close>

text \<open>C2. The alphabet is the 26 uppercase letters and the 10 digits. With every value
  of \<open>Math.random\<close> a double below 1, every generated code has exactly six characters,
  all of the alphabet. In every reachable store every class has such a code and no two
  classes have the same code.\<close>

theorem class_codes:
  "chars = ''ABCDEFGHIJKLMNOPQRSTUVWXYZ0123456789''
   \<and> (randomOk random \<longrightarrow>
         length (fst (generateClassCode random n)) = 6
         \<and> (\<forall>ch \<in> set (fst (generateClassCode random n)). ch \<in> set chars))
   \<and> (reachable s \<longrightarrow>
         (\<forall>c \<in> set (classes s).
            \<exists>code. c_classCode c = Some code \<and> length code = 6 \<and> set code \<subseteq> set chars)
         \<and> distinct (map c_classCode (classes s)))"
proof (intro conjI impI)
  show "chars = ''ABCDEFGHIJKLMNOPQRSTUVWXYZ0123456789''" by (simp add: chars_def)
next
  assume "randomOk random"
  from generateClassCode_valid[OF this, of n]
  show "length (fst (generateClassCode random n)) = 6"
    and "\<forall>ch \<in> set (fst (generateClassCode random n)). ch \<in> set chars"
    by (auto simp: validCode_def)
next
  assume "reachable s"
  from reachable_classInv[OF this]
  show "\<forall>c \<in> set (classes s).
            \<exists>code. c_classCode c = Some code \<and> length code = 6 \<and> set code \<subseteq> set chars"
    and "distinct (map c_classCode (classes s))"
    by (auto simp: classInv_def validCode_def)
qed

theorem class_codes_witness:
  "randomOk (\<lambda>n. (4253399648072135, - 52))
   \<and> fst (generateClassCode (\<lambda>n. (4253399648072135, - 52)) 0) = ''888888''
   \<and> length (fst (generateClassCode (\<lambda>n. (4253399648072135, - 52)) 0)) = 6
   \<and> reachable twoClassStore
   \<and> map c_classCode (classes twoClassStore) = [Some ''AAAAAA'', Some ''SSSSSS'']
   \<and> distinct (map c_classCode (classes twoClassStore))
   \<and> createClass (\<lambda>n. (0, 0)) ''c2'' ''u3'' ''teacher'' ''Geometry'' None classStore
       = (Resp 500 ''Server error creating class'', classStore)"
proof -
  from class_codes[of "\<lambda>n. (4253399648072135, - 52)" 0 twoClassStore]
    randomOk_rounded reachable_twoClassStore
  have "length (fst (generateClassCode (\<lambda>n. (4253399648072135, - 52)) 0)) = 6"
    and "distinct (map c_classCode (classes twoClassStore))"
    by blast+
  then show ?thesis
    using randomOk_rounded reachable_twoClassStore createClass_collision
    by (simp add: generate_rounded twoClassStore_def exampleClass_def secondClass_def)
qed

subsection \<open>The creator stays a teacher member\<close>

text \<open>C7. In every reachable store the creator of every class is in its member list
  with role teacher. A successful class creation appends a class whose only member is the
  creator, as teacher; the member removal answers a request to remove the creator with
  status 400 and leaves the store as it is.\<close>

theorem creator_is_teacher:
  "(reachable s \<longrightarrow>
      (\<forall>c \<in> set (classes s).
         \<lparr>m_user = c_createdBy c, m_role = Teacher\<rparr> \<in> set (c_members c)
         \<and> isTeacher c (c_createdBy c) \<and> isMember c (c_createdBy c)))
   \<and> (fst (createClass random newId userId userRole name description s)
         = Resp 201 ''Class created successfully'' \<longrightarrow>
       (\<exists>d. classes (snd (createClass random newId userId userRole name description s))
               = classes s @ [d]
            \<and> c_id d = newId \<and> c_createdBy d = userId
            \<and> c_members d = [\<lparr>m_user = userId, m_role = Teacher\<rparr>]))
   \<and> (requireClassTeacher s i authUser = Inr reqClass \<and> c_createdBy reqClass = userId' \<longrightarrow>
       removeMember i authUser userId' s = (Resp 400 ''Cannot remove class creator'', s))"
proof (intro conjI impI)
  assume "reachable s"
  from reachable_classInv[OF this]
  have inv: "\<forall>c \<in> set (classes s).
      \<lparr>m_user = c_createdBy c, m_role = Teacher\<rparr> \<in> set (c_members c)"
    by (simp add: classInv_def)
  show "\<forall>c \<in> set (classes s).
         \<lparr>m_user = c_createdBy c, m_role = Teacher\<rparr> \<in> set (c_members c)
         \<and> isTeacher c (c_createdBy c) \<and> isMember c (c_createdBy c)"
  proof
    fix c assume "c \<in> set (classes s)"
    with inv have e: "\<lparr>m_user = c_createdBy c, m_role = Teacher\<rparr> \<in> set (c_members c)" by blast
    then have "isTeacher c (c_createdBy c)" "isMember c (c_createdBy c)"
      by (auto simp: isTeacher_def isMember_def some_iff
          intro!: bexI[of _ "\<lparr>m_user = c_createdBy c, m_role = Teacher\<rparr>"])
    with e show "\<lparr>m_user = c_createdBy c, m_role = Teacher\<rparr> \<in> set (c_members c)
         \<and> isTeacher c (c_createdBy c) \<and> isMember c (c_createdBy c)" by blast
  qed
next
  let ?d0 = "\<lparr>c_id = newId, c_name = trim name, c_description = map_option trim description,
      c_classCode = None, c_createdBy = userId, c_members = [], c_isActive = True\<rparr>"
  assume ok: "fst (createClass random newId userId userRole name description s)
         = Resp 201 ''Class created successfully''"
  then obtain cs' where cs': "Class_saveNew random (classes s) ?d0 = Inr cs'"
    "classes (snd (createClass random newId userId userRole name description s)) = cs'"
    by (auto simp: createClass_def requireRole_def Let_def
        split: option.splits sum.splits if_splits)
  from cs'(1) obtain d1 where d1: "preSaveClassCode random (classes s) True ?d0 = Inr d1"
    "Class_insert (classes s) (preSaveCreator True d1) = Inr cs'"
    by (auto simp: Class_saveNew_def split: sum.splits)
  have "\<not> truthy (c_classCode ?d0)" by (simp add: truthy_def)
  from preSaveClassCode_new[OF this d1(1)] obtain k
    where k: "d1 = ?d0\<lparr>c_classCode := Some (candidate random k)\<rparr>" by blast
  from d1(2) have "cs' = classes s @ [preSaveCreator True d1]"
    by (auto simp: Class_insert_def split: if_splits)
  with cs'(2) k
  show "\<exists>d. classes (snd (createClass random newId userId userRole name description s))
               = classes s @ [d]
            \<and> c_id d = newId \<and> c_createdBy d = userId
            \<and> c_members d = [\<lparr>m_user = userId, m_role = Teacher\<rparr>]"
    by (intro exI[of _ "preSaveCreator True d1"]) (simp add: preSaveCreator_def)
next
  assume "requireClassTeacher s i authUser = Inr reqClass \<and> c_createdBy reqClass = userId'"
  then show "removeMember i authUser userId' s = (Resp 400 ''Cannot remove class creator'', s)"
    by (simp add: removeMember_def)
qed

theorem creator_is_teacher_witness:
  "reachable classStore
   \<and> isTeacher exampleClass ''u1''
   \<and> fst (createClass (\<lambda>n. (0, 0)) ''c1'' ''u1'' ''teacher'' ''Algebra I'' None emptyStore)
       = Resp 201 ''Class created successfully''
   \<and> requireClassTeacher classStore ''c1'' ''u1'' = Inr exampleClass
   \<and> removeMember ''c1'' ''u1'' ''u1'' classStore
       = (Resp 400 ''Cannot remove class creator'', classStore)"
proof -
  have rq: "requireClassTeacher classStore ''c1'' ''u1'' = Inr exampleClass"
    by (simp add: requireClassTeacher_def Class_findById_def classStore_def exampleClass_def
        isTeacher_def)
  have cb: "c_createdBy exampleClass = ''u1''" by (simp add: exampleClass_def)
  have mem: "exampleClass \<in> set (classes classStore)" by (simp add: classStore_def)
  have ok: "fst (createClass (\<lambda>n. (0, 0)) ''c1'' ''u1'' ''teacher'' ''Algebra I'' None emptyStore)
       = Resp 201 ''Class created successfully''"
    by (simp add: createClass_example)
  from creator_is_teacher[of classStore "\<lambda>n. (0, 0)" "''c1''" "''u1''" "''teacher''" "''Algebra I''"
      None "''c1''" "''u1''" exampleClass "''u1''"] reachable_classStore mem rq cb
  have "isTeacher exampleClass ''u1''"
    and "removeMember ''c1'' ''u1'' ''u1'' classStore
       = (Resp 400 ''Cannot remove class creator'', classStore)"
    by auto
  with reachable_classStore ok rq show ?thesis by simp
qed

subsection \<open>Joining a class\<close>

lemma validCode_fixed:
  assumes "validCode code"
  shows "trim code = code" "toUpperCase code = units code" "length code = 6"
proof -
  from assms have sub: "set code \<subseteq> set chars" and "length code = 6"
    by (simp_all add: validCode_def)
  then show "length code = 6" by simp
  from sub show "toUpperCase code = units code" by (rule toUpperCase_code)
  from sub show "trim code = code" by (rule trim_code)
qed

lemma findOneByCode_unique:
  assumes "classInv cs" "c \<in> set cs" "c_classCode c = Some code"
  shows "findOneByCode cs code = Some c"
proof -
  from assms(1) have "distinct (map c_classCode cs)" by (simp add: classInv_def)
  from find_unique[OF this assms(2)] assms(3) show ?thesis
    by (simp add: findOneByCode_def)
qed

lemma Class_findById_unique:
  assumes "classInv cs" "c \<in> set cs"
  shows "Class_findById cs (c_id c) = Some c"
proof -
  from assms(1) have "distinct (map c_id cs)" by (simp add: classInv_def)
  from find_unique[OF this assms(2)] show ?thesis
    by (simp add: Class_findById_def)
qed

text \<open>C8. In a reachable store, a user who is not a member of an active class and joins
  with the code of that class is answered with success, and the class then has the
  members it had and the user after them, as a student: one member more. The same join
  sent again is answered with status 400, already a member, and changes nothing.\<close>

theorem join_then_duplicate:
  assumes "reachable s" and "c \<in> set (classes s)" and "c_classCode c = Some code"
    and "c_isActive c" and "\<not> isMember c userId"
  shows "fst (joinClass userId code s) = Resp 200 ''Successfully joined class''
    \<and> (\<exists>c'. Class_findById (classes (snd (joinClass userId code s))) (c_id c) = Some c'
           \<and> c_members c' = c_members c @ [\<lparr>m_user = userId, m_role = Student\<rparr>]
           \<and> length (c_members c') = length (c_members c) + 1)
    \<and> joinClass userId code (snd (joinClass userId code s))
        = (Resp 400 ''You are already a member of this class'', snd (joinClass userId code s))"
proof -
  let ?g = "\<lambda>d. d\<lparr>c_members := c_members c @ [\<lparr>m_user = userId, m_role = Student\<rparr>]\<rparr>"
  let ?h = "\<lambda>d. if c_id d = c_id c then ?g d else d"
  let ?s' = "s\<lparr>classes := updateOne c_id (c_id c) ?g (classes s)\<rparr>"
  from reachable_classInv[OF assms(1)] have inv: "classInv (classes s)" .
  with assms(2,3) have "validCode code" by (auto simp: classInv_def)
  note fx = validCode_fixed[OF this]
  note found = findOneByCode_unique[OF inv assms(2,3)]
  from assms(5) have nm: "\<not> some (\<lambda>member. m_user member = userId) (c_members c)"
    by (simp add: isMember_def)
  have first: "joinClass userId code s = (Resp 200 ''Successfully joined class'', ?s')"
    using fx found assms(4) nm by (simp add: joinClass_def findOneByUnits_units)
  have byId: "Class_findById (classes ?s') (c_id c) = Some (?g c)"
  proof -
    have "Class_findById (classes ?s') (c_id c)
        = map_option ?h (find (\<lambda>x. c_id (?h x) = c_id c) (classes s))"
      by (simp add: Class_findById_def updateOne_def find_map)
    also have "(\<lambda>x. c_id (?h x) = c_id c) = (\<lambda>x. c_id x = c_id c)" by auto
    also have "find (\<lambda>x. c_id x = c_id c) (classes s) = Some c"
      using Class_findById_unique[OF inv assms(2)] by (simp add: Class_findById_def)
    finally show ?thesis by simp
  qed
  have byCode: "findOneByCode (classes ?s') code = Some (?g c)"
  proof -
    have "findOneByCode (classes ?s') code
        = map_option ?h (find (\<lambda>x. c_classCode (?h x) = Some code) (classes s))"
      by (simp add: findOneByCode_def updateOne_def find_map)
    also have "(\<lambda>x. c_classCode (?h x) = Some code) = (\<lambda>x. c_classCode x = Some code)" by auto
    also have "find (\<lambda>x. c_classCode x = Some code) (classes s) = Some c"
      using found by (simp add: findOneByCode_def)
    finally show ?thesis by simp
  qed
  have second: "joinClass userId code ?s'
      = (Resp 400 ''You are already a member of this class'', ?s')"
    using fx byCode assms(4) by (simp add: joinClass_def findOneByUnits_units some_iff)
  from first byId second show ?thesis by simp
qed

theorem join_then_duplicate_witness:
  "reachable classStore \<and> exampleClass \<in> set (classes classStore)
   \<and> c_classCode exampleClass = Some ''AAAAAA'' \<and> c_isActive exampleClass
   \<and> \<not> isMember exampleClass ''u2''
   \<and> joinClass ''u2'' ''AAAAAA'' classStore
       = (Resp 200 ''Successfully joined class'', classStore\<lparr>classes := [joinedClass]\<rparr>)
   \<and> length (c_members joinedClass) = length (c_members exampleClass) + 1
   \<and> joinClass ''u2'' ''AAAAAA'' (classStore\<lparr>classes := [joinedClass]\<rparr>)
       = (Resp 400 ''You are already a member of this class'',
          classStore\<lparr>classes := [joinedClass]\<rparr>)"
proof -
  have h: "exampleClass \<in> set (classes classStore)" "c_classCode exampleClass = Some ''AAAAAA''"
    "c_isActive exampleClass" "\<not> isMember exampleClass ''u2''"
    by (simp_all add: classStore_def exampleClass_def isMember_def)
  from join_then_duplicate[OF reachable_classStore h]
  have "joinClass ''u2'' ''AAAAAA'' (snd (joinClass ''u2'' ''AAAAAA'' classStore))
        = (Resp 400 ''You are already a member of this class'',
           snd (joinClass ''u2'' ''AAAAAA'' classStore))"
    by blast
  then have "joinClass ''u2'' ''AAAAAA'' (classStore\<lparr>classes := [joinedClass]\<rparr>)
       = (Resp 400 ''You are already a member of this class'',
          classStore\<lparr>classes := [joinedClass]\<rparr>)"
    by (simp add: joinClass_example)
  moreover have "length (c_members joinedClass) = length (c_members exampleClass) + 1"
    by (simp add: joinedClass_def exampleClass_def)
  ultimately show ?thesis
    using reachable_classStore h joinClass_example by simp
qed

subsection \<open>Joining is case-insensitive\<close>







text \<open>The sharp s is one character and its uppercase is two: with it a code of six
  characters has an uppercase of seven. The join handler answers the code with 404, as
  no class has a code of seven characters, and answers its uppercase with 400, as it is
  not six characters long; neither finds a class.\<close>

lemma join_sharp_s:
  "toUpperCase (CHR 0xDF # ''AAAAA'') = units ''SSAAAAA''"
  "joinClass ''u2'' (CHR 0xDF # ''AAAAA'') classStore
     = (Resp 404 ''Class not found with this code'', classStore)"
  "joinClass ''u2'' ''SSAAAAA'' classStore = (Resp 400 ''Validation failed'', classStore)"
proof -
  show up: "toUpperCase (CHR 0xDF # ''AAAAA'') = units ''SSAAAAA''"
    by (simp add: toUpperCase_def units_def upperUnits_def)
  have tr: "trim (CHR 0xDF # ''AAAAA'') = CHR 0xDF # ''AAAAA''"
    "trim ''SSAAAAA'' = ''SSAAAAA''"
    by (simp_all add: trim_def isSpace_def)
  show "joinClass ''u2'' (CHR 0xDF # ''AAAAA'') classStore
     = (Resp 404 ''Class not found with this code'', classStore)"
    by (simp add: joinClass_def tr up findOneByUnits_def units_def classStore_def
        exampleClass_def)
  show "joinClass ''u2'' ''SSAAAAA'' classStore = (Resp 400 ''Validation failed'', classStore)"
    by (simp add: joinClass_def tr)
qed






subsection \<open>Votes\<close>

lemma castVote_voter: "exclusive userId (castVote userId type v)"
  by (simp add: castVote_def exclusive_def Let_def)

lemma castVote_other: "exclusive u v \<Longrightarrow> exclusive u (castVote userId type v)"
  by (auto simp: castVote_def exclusive_def Let_def)

lemma castVote_idem: "castVote userId type (castVote userId type v) = castVote userId type v"
  by (simp add: castVote_def Let_def)

lemma Question_findById_updateOne:
  assumes "\<And>d. q_id (f d) = q_id d"
  shows "Question_findById (updateOne q_id j f qs) i
           = map_option (\<lambda>d. if q_id d = j then f d else d) (Question_findById qs i)"
proof -
  have "(\<lambda>x. q_id (if q_id x = j then f x else x) = i) = (\<lambda>x. q_id x = i)"
    using assms by auto
  then show ?thesis
    by (simp add: Question_findById_def updateOne_def find_map)
qed

lemma Answer_findById_updateOne:
  assumes "\<And>d. a_id (f d) = a_id d"
  shows "Answer_findById (updateOne a_id j f as) i
           = map_option (\<lambda>d. if a_id d = j then f d else d) (Answer_findById as i)"
proof -
  have "(\<lambda>x. a_id (if a_id x = j then f x else x) = i) = (\<lambda>x. a_id x = i)"
    using assms by auto
  then show ?thesis
    by (simp add: Answer_findById_def updateOne_def find_map)
qed

lemma updateOne_twice:
  assumes "\<And>d. idOf (f d) = idOf d" "\<And>d. g (f d) = g d"
  shows "updateOne idOf i g (updateOne idOf i f docs) = updateOne idOf i g docs"
  using assms by (induction docs) (auto simp: updateOne_def)

lemma Question_findById_id: "Question_findById qs i = Some q \<Longrightarrow> q_id q = i \<and> q \<in> set qs"
  using find_in_set[of "\<lambda>q. q_id q = i" qs q] by (simp add: Question_findById_def)

lemma Answer_findById_id: "Answer_findById as i = Some a \<Longrightarrow> a_id a = i \<and> a \<in> set as"
  using find_in_set[of "\<lambda>a. a_id a = i" as a] by (simp add: Answer_findById_def)

lemma voteQuestion_idem:
  "voteQuestion i userId type (snd (voteQuestion i userId type s)) = voteQuestion i userId type s"
proof (cases "fst (voteQuestion i userId type s) = Resp 200 ''Vote updated successfully''")
  case False
  then have "snd (voteQuestion i userId type s) = s"
    by (auto simp: voteQuestion_def Let_def split: option.splits if_splits)
  then show ?thesis by simp
next
  case True
  then obtain question classDoc where ok: "type \<in> set voteTypes"
    "Question_findById (questions s) i = Some question"
    "Class_findById (classes s) (q_classId question) = Some classDoc"
    "isMember classDoc userId"
    by (auto simp: voteQuestion_def Let_def split: option.splits if_splits)
  let ?v = "castVote userId type (q_upvotes question, q_downvotes question)"
  let ?f = "\<lambda>d. d\<lparr>q_upvotes := fst ?v, q_downvotes := snd ?v\<rparr>"
  let ?s' = "s\<lparr>questions := updateOne q_id (q_id question) ?f (questions s)\<rparr>"
  from Question_findById_id[OF ok(2)] have qi: "q_id question = i" by simp
  have first: "voteQuestion i userId type s = (Resp 200 ''Vote updated successfully'', ?s')"
    using ok by (simp add: voteQuestion_def Let_def)
  have found: "Question_findById (questions ?s') i = Some (?f question)"
    using ok(2) qi by (simp add: Question_findById_updateOne)
  have same: "castVote userId type (q_upvotes (?f question), q_downvotes (?f question)) = ?v"
    by (simp add: castVote_idem)
  have "updateOne q_id (q_id question) ?f (updateOne q_id (q_id question) ?f (questions s))
      = updateOne q_id (q_id question) ?f (questions s)"
    by (rule updateOne_twice) simp_all
  then have "voteQuestion i userId type ?s' = (Resp 200 ''Vote updated successfully'', ?s')"
    using ok found same by (simp add: voteQuestion_def Let_def)
  with first show ?thesis by simp
qed

lemma voteAnswer_idem:
  "voteAnswer i userId type (snd (voteAnswer i userId type s)) = voteAnswer i userId type s"
proof (cases "fst (voteAnswer i userId type s) = Resp 200 ''Vote updated successfully''")
  case False
  then have "snd (voteAnswer i userId type s) = s"
    by (auto simp: voteAnswer_def Let_def split: option.splits if_splits)
  then show ?thesis by simp
next
  case True
  then obtain answer question classDoc where ok: "type \<in> set voteTypes"
    "Answer_findById (answers s) i = Some answer"
    "Question_findById (questions s) (a_questionId answer) = Some question"
    "Class_findById (classes s) (q_classId question) = Some classDoc"
    "isMember classDoc userId"
    by (auto simp: voteAnswer_def Let_def split: option.splits if_splits)
  let ?v = "castVote userId type (a_upvotes answer, a_downvotes answer)"
  let ?f = "\<lambda>d. d\<lparr>a_upvotes := fst ?v, a_downvotes := snd ?v\<rparr>"
  let ?s' = "s\<lparr>answers := updateOne a_id (a_id answer) ?f (answers s)\<rparr>"
  from Answer_findById_id[OF ok(2)] have ai: "a_id answer = i" by simp
  have first: "voteAnswer i userId type s = (Resp 200 ''Vote updated successfully'', ?s')"
    using ok by (simp add: voteAnswer_def Let_def)
  have found: "Answer_findById (answers ?s') i = Some (?f answer)"
    using ok(2) ai by (simp add: Answer_findById_updateOne)
  have same: "castVote userId type (a_upvotes (?f answer), a_downvotes (?f answer)) = ?v"
    by (simp add: castVote_idem)
  have "updateOne a_id (a_id answer) ?f (updateOne a_id (a_id answer) ?f (answers s))
      = updateOne a_id (a_id answer) ?f (answers s)"
    by (rule updateOne_twice) simp_all
  then have "voteAnswer i userId type ?s' = (Resp 200 ''Vote updated successfully'', ?s')"
    using ok found same by (simp add: voteAnswer_def Let_def)
  with first show ?thesis by simp
qed

text \<open>C4. Casting the same vote of the same user a second time changes nothing: on the
  two voter arrays, and for the vote handlers of questions and of answers, whose second
  run returns the response and the store of the first.\<close>

theorem vote_idempotent:
  "castVote userId type (castVote userId type v) = castVote userId type v
   \<and> voteQuestion i userId type (snd (voteQuestion i userId type s))
       = voteQuestion i userId type s
   \<and> voteAnswer i userId type (snd (voteAnswer i userId type s))
       = voteAnswer i userId type s"
  using castVote_idem voteQuestion_idem voteAnswer_idem by blast

theorem vote_idempotent_witness:
  "castVote ''u1'' ''upvote'' ([''u2''], [''u1'']) = ([''u2'', ''u1''], [])
   \<and> castVote ''u1'' ''upvote'' ([''u2'', ''u1''], []) = ([''u2'', ''u1''], [])"
proof -
  have a: "castVote ''u1'' ''upvote'' ([''u2''], [''u1'']) = ([''u2'', ''u1''], [])"
    by (simp add: castVote_def)
  from vote_idempotent[of "''u1''" "''upvote''" "([''u2''], [''u1''])"] a
  show ?thesis by simp
qed

subsection \<open>At most one vote of a user\<close>

lemma exclusiveQ_updateOne:
  assumes "exclusiveQ u i s"
    and "\<And>d. q_id (f d) = q_id d"
    and "\<And>d. d \<in> set (questions s) \<Longrightarrow> q_id d = i \<Longrightarrow> j = i \<Longrightarrow>
           exclusive u (q_upvotes (f d), q_downvotes (f d))"
    and "questions s' = updateOne q_id j f (questions s)"
  shows "exclusiveQ u i s'"
  unfolding exclusiveQ_def
proof (intro ballI impI)
  fix q assume q: "q \<in> set (questions s')" "q_id q = i"
  from q(1) assms(4) obtain d where d: "d \<in> set (questions s)"
    "q = (if q_id d = j then f d else d)"
    using set_updateOne[of q q_id j f "questions s"] by auto
  from d(2) q(2) assms(2) have di: "q_id d = i" by (simp split: if_splits)
  show "exclusive u (q_upvotes q, q_downvotes q)"
  proof (cases "q_id d = j")
    case False
    with d di assms(1) show ?thesis by (simp add: exclusiveQ_def)
  next
    case True
    with di have "j = i" by simp
    from assms(3)[OF d(1) di this] d(2) True show ?thesis by simp
  qed
qed

lemma exclusiveA_updateOne:
  assumes "exclusiveA u i s"
    and "\<And>d. a_id (f d) = a_id d"
    and "\<And>d. d \<in> set (answers s) \<Longrightarrow> a_id d = i \<Longrightarrow> j = i \<Longrightarrow>
           exclusive u (a_upvotes (f d), a_downvotes (f d))"
    and "answers s' = updateOne a_id j f (answers s)"
  shows "exclusiveA u i s'"
  unfolding exclusiveA_def
proof (intro ballI impI)
  fix a assume a: "a \<in> set (answers s')" "a_id a = i"
  from a(1) assms(4) obtain d where d: "d \<in> set (answers s)"
    "a = (if a_id d = j then f d else d)"
    using set_updateOne[of a a_id j f "answers s"] by auto
  from d(2) a(2) assms(2) have di: "a_id d = i" by (simp split: if_splits)
  show "exclusive u (a_upvotes a, a_downvotes a)"
  proof (cases "a_id d = j")
    case False
    with d di assms(1) show ?thesis by (simp add: exclusiveA_def)
  next
    case True
    with di have "j = i" by simp
    from assms(3)[OF d(1) di this] d(2) True show ?thesis by simp
  qed
qed

lemma exclusiveQ_same: "exclusiveQ u i s \<Longrightarrow> questions s' = questions s \<Longrightarrow> exclusiveQ u i s'"
  by (simp add: exclusiveQ_def)

lemma exclusiveA_same: "exclusiveA u i s \<Longrightarrow> answers s' = answers s \<Longrightarrow> exclusiveA u i s'"
  by (simp add: exclusiveA_def)

text \<open>The routes other than the two vote routes keep the votes of every document.\<close>

lemma votesKeptQ_refl: "votesKeptQ qs qs"
  by (simp add: votesKeptQ_def)

lemma votesKeptA_refl: "votesKeptA as as"
  by (simp add: votesKeptA_def)

lemma votesKeptQ_updateOne:
  assumes "\<And>d. q_id (f d) = q_id d \<and> q_upvotes (f d) = q_upvotes d
             \<and> q_downvotes (f d) = q_downvotes d"
  shows "votesKeptQ qs (updateOne q_id j f qs)"
  using assms by (simp add: votesKeptQ_def updateOne_def)

lemma votesKeptA_updateOne:
  assumes "\<And>d. a_id (f d) = a_id d \<and> a_upvotes (f d) = a_upvotes d
             \<and> a_downvotes (f d) = a_downvotes d"
  shows "votesKeptA as (updateOne a_id j f as)"
  using assms by (simp add: votesKeptA_def updateOne_def)

lemma votesKeptQ_append:
  "q_upvotes d = [] \<Longrightarrow> q_downvotes d = [] \<Longrightarrow> votesKeptQ qs (qs @ [d])"
  by (auto simp: votesKeptQ_def nth_append less_Suc_eq)

lemma votesKeptA_append:
  "a_upvotes d = [] \<Longrightarrow> a_downvotes d = [] \<Longrightarrow> votesKeptA as (as @ [d])"
  by (auto simp: votesKeptA_def nth_append less_Suc_eq)

lemma votesKeptA_map:
  assumes "\<And>d. a_id (f d) = a_id d \<and> a_upvotes (f d) = a_upvotes d
             \<and> a_downvotes (f d) = a_downvotes d"
  shows "votesKeptA as (map f as)"
  using assms by (simp add: votesKeptA_def)

lemma votesKeptA_trans: "votesKeptA as bs \<Longrightarrow> votesKeptA bs cs \<Longrightarrow> votesKeptA as cs"
  unfolding votesKeptA_def
  by (smt (verit, best) le_trans less_le_trans not_less)

lemma votesKeptQ_routes:
  "votesKeptQ (questions s) (questions (snd (getQuestion i userId s)))"
  "votesKeptQ (questions s)
     (questions (snd (createQuestion newId classId userId title description tags s)))"
  "votesKeptQ (questions s)
     (questions (snd (updateQuestion i userId otitle odescription otags s)))"
  "votesKeptQ (questions s) (questions (snd (deleteQuestion i userId s)))"
  "votesKeptQ (questions s) (questions (snd (createAnswer newId questionId userId text s)))"
  "votesKeptQ (questions s) (questions (snd (acceptAnswer i userId s)))"
  "votesKeptQ (questions s) (questions (snd (deleteAnswer i userId s)))"
  by (auto simp: getQuestion_def createQuestion_def updateQuestion_def deleteQuestion_def
      createAnswer_def acceptAnswer_def deleteAnswer_def Question_insert_def Answer_insert_def
      Let_def votesKeptQ_refl
      intro!: votesKeptQ_updateOne votesKeptQ_append split: option.splits)

lemma votesKeptA_routes:
  "votesKeptA (answers s) (answers (snd (createAnswer newId questionId userId text s)))"
  "votesKeptA (answers s) (answers (snd (updateAnswer i userId text s)))"
  "votesKeptA (answers s) (answers (snd (deleteAnswer i userId s)))"
  by (auto simp: createAnswer_def updateAnswer_def deleteAnswer_def Answer_insert_def
      Let_def votesKeptA_refl
      intro!: votesKeptA_updateOne votesKeptA_append split: option.splits)

lemma votesKeptA_acceptAnswer:
  "votesKeptA (answers s) (answers (snd (acceptAnswer i userId s)))"
proof -
  have m: "votesKeptA as (Answer_updateMany_unaccept q as)" for q as
    unfolding Answer_updateMany_unaccept_def by (rule votesKeptA_map) simp
  have u: "votesKeptA as (updateOne a_id j (\<lambda>d. d\<lparr>a_isAccepted := True\<rparr>) as)" for j as
    by (rule votesKeptA_updateOne) simp
  have mu: "votesKeptA as (updateOne a_id j (\<lambda>d. d\<lparr>a_isAccepted := True\<rparr>)
      (Answer_updateMany_unaccept q as))" for j q as
    by (rule votesKeptA_trans[OF m u])
  show ?thesis
    by (auto simp: acceptAnswer_def Let_def votesKeptA_refl m mu split: option.splits)
qed

lemma exclusiveQ_kept:
  assumes "exclusiveQ u i s" "votesKeptQ (questions s) (questions s')"
  shows "exclusiveQ u i s'"
  unfolding exclusiveQ_def
proof (intro ballI impI)
  fix q assume "q \<in> set (questions s')" and qi: "q_id q = i"
  then obtain k where k: "k < length (questions s')" "q = questions s' ! k"
    by (auto simp: in_set_conv_nth)
  show "exclusive u (q_upvotes q, q_downvotes q)"
  proof (cases "k < length (questions s)")
    case True
    with assms(2) k have same: "q_id q = q_id (questions s ! k)"
      "q_upvotes q = q_upvotes (questions s ! k)" "q_downvotes q = q_downvotes (questions s ! k)"
      by (auto simp: votesKeptQ_def)
    from True have "questions s ! k \<in> set (questions s)" by simp
    with assms(1) same qi show ?thesis by (simp add: exclusiveQ_def)
  next
    case False
    with assms(2) k have "q_upvotes q = []" by (auto simp: votesKeptQ_def)
    then show ?thesis by (simp add: exclusive_def)
  qed
qed

lemma exclusiveA_kept:
  assumes "exclusiveA u i s" "votesKeptA (answers s) (answers s')"
  shows "exclusiveA u i s'"
  unfolding exclusiveA_def
proof (intro ballI impI)
  fix a assume "a \<in> set (answers s')" and ai: "a_id a = i"
  then obtain k where k: "k < length (answers s')" "a = answers s' ! k"
    by (auto simp: in_set_conv_nth)
  show "exclusive u (a_upvotes a, a_downvotes a)"
  proof (cases "k < length (answers s)")
    case True
    with assms(2) k have same: "a_id a = a_id (answers s ! k)"
      "a_upvotes a = a_upvotes (answers s ! k)" "a_downvotes a = a_downvotes (answers s ! k)"
      by (auto simp: votesKeptA_def)
    from True have "answers s ! k \<in> set (answers s)" by simp
    with assms(1) same ai show ?thesis by (simp add: exclusiveA_def)
  next
    case False
    with assms(2) k have "a_upvotes a = []" by (auto simp: votesKeptA_def)
    then show ?thesis by (simp add: exclusive_def)
  qed
qed

text \<open>The two vote routes.\<close>

lemma voteQuestion_cases:
  "snd (voteQuestion j userId type s) = s
   \<or> (\<exists>question. Question_findById (questions s) j = Some question
        \<and> fst (voteQuestion j userId type s) = Resp 200 ''Vote updated successfully''
        \<and> snd (voteQuestion j userId type s)
            = s\<lparr>questions := updateOne q_id j
                (\<lambda>d. d\<lparr>q_upvotes := fst (castVote userId type
                                  (q_upvotes question, q_downvotes question)),
                       q_downvotes := snd (castVote userId type
                                  (q_upvotes question, q_downvotes question))\<rparr>)
                (questions s)\<rparr>)"
  by (auto simp: voteQuestion_def Let_def dest: Question_findById_id split: option.splits)

lemma voteAnswer_cases:
  "snd (voteAnswer j userId type s) = s
   \<or> (\<exists>answer. Answer_findById (answers s) j = Some answer
        \<and> fst (voteAnswer j userId type s) = Resp 200 ''Vote updated successfully''
        \<and> snd (voteAnswer j userId type s)
            = s\<lparr>answers := updateOne a_id j
                (\<lambda>d. d\<lparr>a_upvotes := fst (castVote userId type
                                  (a_upvotes answer, a_downvotes answer)),
                       a_downvotes := snd (castVote userId type
                                  (a_upvotes answer, a_downvotes answer))\<rparr>)
                (answers s)\<rparr>)"
  by (auto simp: voteAnswer_def Let_def dest: Answer_findById_id split: option.splits)

lemma exclusiveQ_voteQuestion:
  assumes "exclusiveQ u i s"
  shows "exclusiveQ u i (snd (voteQuestion j userId type s))"
proof -
  from voteQuestion_cases[of j userId type s] show ?thesis
  proof
    assume "snd (voteQuestion j userId type s) = s"
    with assms show ?thesis by simp
  next
    assume "\<exists>question. Question_findById (questions s) j = Some question
        \<and> fst (voteQuestion j userId type s) = Resp 200 ''Vote updated successfully''
        \<and> snd (voteQuestion j userId type s)
            = s\<lparr>questions := updateOne q_id j
                (\<lambda>d. d\<lparr>q_upvotes := fst (castVote userId type
                                  (q_upvotes question, q_downvotes question)),
                       q_downvotes := snd (castVote userId type
                                  (q_upvotes question, q_downvotes question))\<rparr>)
                (questions s)\<rparr>"
    then obtain question where q: "Question_findById (questions s) j = Some question"
      and s': "snd (voteQuestion j userId type s)
            = s\<lparr>questions := updateOne q_id j
                (\<lambda>d. d\<lparr>q_upvotes := fst (castVote userId type
                                  (q_upvotes question, q_downvotes question)),
                       q_downvotes := snd (castVote userId type
                                  (q_upvotes question, q_downvotes question))\<rparr>)
                (questions s)\<rparr>"
      by blast
    from Question_findById_id[OF q] have qj: "q_id question = j" "question \<in> set (questions s)"
      by simp_all
    show ?thesis
    proof (rule exclusiveQ_updateOne[OF assms])
      show "questions (snd (voteQuestion j userId type s))
          = updateOne q_id j
                (\<lambda>d. d\<lparr>q_upvotes := fst (castVote userId type
                                  (q_upvotes question, q_downvotes question)),
                       q_downvotes := snd (castVote userId type
                                  (q_upvotes question, q_downvotes question))\<rparr>)
                (questions s)"
        by (simp add: s')
    next
      fix d assume "j = i"
      with qj assms have "exclusive u (q_upvotes question, q_downvotes question)"
        by (simp add: exclusiveQ_def)
      from castVote_other[OF this, of userId type]
      show "exclusive u
           (q_upvotes (d\<lparr>q_upvotes := fst (castVote userId type
                                  (q_upvotes question, q_downvotes question)),
                       q_downvotes := snd (castVote userId type
                                  (q_upvotes question, q_downvotes question))\<rparr>),
            q_downvotes (d\<lparr>q_upvotes := fst (castVote userId type
                                  (q_upvotes question, q_downvotes question)),
                       q_downvotes := snd (castVote userId type
                                  (q_upvotes question, q_downvotes question))\<rparr>))"
        by simp
    qed simp
  qed
qed

lemma exclusiveA_voteAnswer:
  assumes "exclusiveA u i s"
  shows "exclusiveA u i (snd (voteAnswer j userId type s))"
proof -
  from voteAnswer_cases[of j userId type s] show ?thesis
  proof
    assume "snd (voteAnswer j userId type s) = s"
    with assms show ?thesis by simp
  next
    assume "\<exists>answer. Answer_findById (answers s) j = Some answer
        \<and> fst (voteAnswer j userId type s) = Resp 200 ''Vote updated successfully''
        \<and> snd (voteAnswer j userId type s)
            = s\<lparr>answers := updateOne a_id j
                (\<lambda>d. d\<lparr>a_upvotes := fst (castVote userId type
                                  (a_upvotes answer, a_downvotes answer)),
                       a_downvotes := snd (castVote userId type
                                  (a_upvotes answer, a_downvotes answer))\<rparr>)
                (answers s)\<rparr>"
    then obtain answer where a: "Answer_findById (answers s) j = Some answer"
      and s': "snd (voteAnswer j userId type s)
            = s\<lparr>answers := updateOne a_id j
                (\<lambda>d. d\<lparr>a_upvotes := fst (castVote userId type
                                  (a_upvotes answer, a_downvotes answer)),
                       a_downvotes := snd (castVote userId type
                                  (a_upvotes answer, a_downvotes answer))\<rparr>)
                (answers s)\<rparr>"
      by blast
    from Answer_findById_id[OF a] have aj: "a_id answer = j" "answer \<in> set (answers s)"
      by simp_all
    show ?thesis
    proof (rule exclusiveA_updateOne[OF assms])
      show "answers (snd (voteAnswer j userId type s))
          = updateOne a_id j
                (\<lambda>d. d\<lparr>a_upvotes := fst (castVote userId type
                                  (a_upvotes answer, a_downvotes answer)),
                       a_downvotes := snd (castVote userId type
                                  (a_upvotes answer, a_downvotes answer))\<rparr>)
                (answers s)"
        by (simp add: s')
    next
      fix d assume "j = i"
      with aj assms have "exclusive u (a_upvotes answer, a_downvotes answer)"
        by (simp add: exclusiveA_def)
      from castVote_other[OF this, of userId type]
      show "exclusive u
           (a_upvotes (d\<lparr>a_upvotes := fst (castVote userId type
                                  (a_upvotes answer, a_downvotes answer)),
                       a_downvotes := snd (castVote userId type
                                  (a_upvotes answer, a_downvotes answer))\<rparr>),
            a_downvotes (d\<lparr>a_upvotes := fst (castVote userId type
                                  (a_upvotes answer, a_downvotes answer)),
                       a_downvotes := snd (castVote userId type
                                  (a_upvotes answer, a_downvotes answer))\<rparr>))"
        by simp
    qed simp
  qed
qed

text \<open>A successful vote puts the voter in at most one array of the voted document.\<close>

lemma voteQuestion_exclusive:
  assumes "fst (voteQuestion i userId type s) = Resp 200 ''Vote updated successfully''"
  shows "exclusiveQ userId i (snd (voteQuestion i userId type s))"
proof -
  from assms obtain question classDoc where ok: "type \<in> set voteTypes"
    "Question_findById (questions s) i = Some question"
    "Class_findById (classes s) (q_classId question) = Some classDoc"
    "isMember classDoc userId"
    by (auto simp: voteQuestion_def Let_def split: option.splits if_splits)
  from Question_findById_id[OF ok(2)] have qi: "q_id question = i" by simp
  have s': "snd (voteQuestion i userId type s)
            = s\<lparr>questions := updateOne q_id i
                (\<lambda>d. d\<lparr>q_upvotes := fst (castVote userId type
                                  (q_upvotes question, q_downvotes question)),
                       q_downvotes := snd (castVote userId type
                                  (q_upvotes question, q_downvotes question))\<rparr>)
                (questions s)\<rparr>"
    using ok qi by (simp add: voteQuestion_def Let_def)
  have "exclusive userId (q_upvotes q, q_downvotes q)"
    if "q \<in> set (questions (snd (voteQuestion i userId type s)))" "q_id q = i" for q
  proof -
    from that(1) have "q \<in> set (updateOne q_id i
                (\<lambda>d. d\<lparr>q_upvotes := fst (castVote userId type
                                  (q_upvotes question, q_downvotes question)),
                       q_downvotes := snd (castVote userId type
                                  (q_upvotes question, q_downvotes question))\<rparr>)
                (questions s))"
      by (simp add: s')
    from set_updateOne[OF this] obtain d where d: "q = (if q_id d = i
        then d\<lparr>q_upvotes := fst (castVote userId type
                                  (q_upvotes question, q_downvotes question)),
                       q_downvotes := snd (castVote userId type
                                  (q_upvotes question, q_downvotes question))\<rparr>
        else d)"
      by blast
    with that(2) have "q_upvotes q = fst (castVote userId type
                                  (q_upvotes question, q_downvotes question))"
      "q_downvotes q = snd (castVote userId type
                                  (q_upvotes question, q_downvotes question))"
      by (auto split: if_splits)
    with castVote_voter[of userId type "(q_upvotes question, q_downvotes question)"]
    show ?thesis by simp
  qed
  then show ?thesis by (simp add: exclusiveQ_def)
qed

lemma voteAnswer_exclusive:
  assumes "fst (voteAnswer i userId type s) = Resp 200 ''Vote updated successfully''"
  shows "exclusiveA userId i (snd (voteAnswer i userId type s))"
proof -
  from assms obtain answer question classDoc where ok: "type \<in> set voteTypes"
    "Answer_findById (answers s) i = Some answer"
    "Question_findById (questions s) (a_questionId answer) = Some question"
    "Class_findById (classes s) (q_classId question) = Some classDoc"
    "isMember classDoc userId"
    by (auto simp: voteAnswer_def Let_def split: option.splits if_splits)
  from Answer_findById_id[OF ok(2)] have ai: "a_id answer = i" by simp
  have s': "snd (voteAnswer i userId type s)
            = s\<lparr>answers := updateOne a_id i
                (\<lambda>d. d\<lparr>a_upvotes := fst (castVote userId type
                                  (a_upvotes answer, a_downvotes answer)),
                       a_downvotes := snd (castVote userId type
                                  (a_upvotes answer, a_downvotes answer))\<rparr>)
                (answers s)\<rparr>"
    using ok ai by (simp add: voteAnswer_def Let_def)
  have "exclusive userId (a_upvotes a, a_downvotes a)"
    if "a \<in> set (answers (snd (voteAnswer i userId type s)))" "a_id a = i" for a
  proof -
    from that(1) have "a \<in> set (updateOne a_id i
                (\<lambda>d. d\<lparr>a_upvotes := fst (castVote userId type
                                  (a_upvotes answer, a_downvotes answer)),
                       a_downvotes := snd (castVote userId type
                                  (a_upvotes answer, a_downvotes answer))\<rparr>)
                (answers s))"
      by (simp add: s')
    from set_updateOne[OF this] obtain d where d: "a = (if a_id d = i
        then d\<lparr>a_upvotes := fst (castVote userId type
                                  (a_upvotes answer, a_downvotes answer)),
                       a_downvotes := snd (castVote userId type
                                  (a_upvotes answer, a_downvotes answer))\<rparr>
        else d)"
      by blast
    with that(2) have "a_upvotes a = fst (castVote userId type
                                  (a_upvotes answer, a_downvotes answer))"
      "a_downvotes a = snd (castVote userId type
                                  (a_upvotes answer, a_downvotes answer))"
      by (auto split: if_splits)
    with castVote_voter[of userId type "(a_upvotes answer, a_downvotes answer)"]
    show ?thesis by simp
  qed
  then show ?thesis by (simp add: exclusiveA_def)
qed

text \<open>The routes that do not write a collection.\<close>

lemma questions_class_routes:
  "questions (snd (createClass random newId userId userRole name description s)) = questions s"
  "questions (snd (joinClass userId classCode s)) = questions s"
  "questions (snd (updateClass i userId oname odescription s)) = questions s"
  "questions (snd (removeMember i authUser userId' s)) = questions s"
  "questions (snd (deleteClass i userId s)) = questions s"
  by (auto simp: createClass_def joinClass_def updateClass_def removeMember_def deleteClass_def
      Let_def split: option.splits sum.splits)

lemma questions_answer_routes:
  "questions (snd (updateAnswer i userId text s)) = questions s"
  "questions (snd (voteAnswer i userId type s)) = questions s"
  by (auto simp: updateAnswer_def voteAnswer_def Let_def split: option.splits sum.splits)

lemma answers_class_routes:
  "answers (snd (createClass random newId userId userRole name description s)) = answers s"
  "answers (snd (joinClass userId classCode s)) = answers s"
  "answers (snd (updateClass i userId oname odescription s)) = answers s"
  "answers (snd (removeMember i authUser userId' s)) = answers s"
  "answers (snd (deleteClass i userId s)) = answers s"
  by (auto simp: createClass_def joinClass_def updateClass_def removeMember_def deleteClass_def
      Let_def split: option.splits sum.splits)

lemma answers_question_routes:
  "answers (snd (getQuestion i userId s)) = answers s"
  "answers (snd (createQuestion newId classId userId title description tags s)) = answers s"
  "answers (snd (updateQuestion i userId otitle odescription otags s)) = answers s"
  "answers (snd (voteQuestion i userId type s)) = answers s"
  "answers (snd (deleteQuestion i userId s)) = answers s"
  by (auto simp: getQuestion_def createQuestion_def updateQuestion_def voteQuestion_def
      deleteQuestion_def Let_def split: option.splits sum.splits)

lemma exclusiveQ_handle: "exclusiveQ u i s \<Longrightarrow> exclusiveQ u i (snd (handle req s))"
  by (cases req)
    (auto simp: questions_class_routes questions_answer_routes votesKeptQ_routes
      intro: exclusiveQ_same exclusiveQ_kept exclusiveQ_voteQuestion)

lemma exclusiveA_handle: "exclusiveA u i s \<Longrightarrow> exclusiveA u i (snd (handle req s))"
  by (cases req)
    (auto simp: answers_class_routes answers_question_routes votesKeptA_routes
      votesKeptA_acceptAnswer
      intro: exclusiveA_same exclusiveA_kept exclusiveA_voteAnswer)

lemma exclusiveQ_run: "exclusiveQ u i s \<Longrightarrow> exclusiveQ u i (run reqs s)"
  by (induction reqs arbitrary: s) (simp_all add: exclusiveQ_handle)

lemma exclusiveA_run: "exclusiveA u i s \<Longrightarrow> exclusiveA u i (run reqs s)"
  by (induction reqs arbitrary: s) (simp_all add: exclusiveA_handle)

text \<open>C3. The vote statements leave the voter in at most one of the two arrays, whatever
  the arrays held. After a successful vote on a question or an answer, the voter is in at
  most one array of that document; and once a user is in at most one array of a
  document, this stays so after any sequence of requests, votes of that user included.\<close>

theorem vote_exclusive:
  "exclusive userId (castVote userId type v)
   \<and> (fst (voteQuestion i userId type s) = Resp 200 ''Vote updated successfully'' \<longrightarrow>
        exclusiveQ userId i (run reqs (snd (voteQuestion i userId type s))))
   \<and> (fst (voteAnswer i userId type s) = Resp 200 ''Vote updated successfully'' \<longrightarrow>
        exclusiveA userId i (run reqs (snd (voteAnswer i userId type s))))
   \<and> (exclusiveQ userId i s \<longrightarrow> exclusiveQ userId i (run reqs s))
   \<and> (exclusiveA userId i s \<longrightarrow> exclusiveA userId i (run reqs s))"
  using castVote_voter voteQuestion_exclusive voteAnswer_exclusive exclusiveQ_run exclusiveA_run
  by blast

lemma trim_examples:
  "trim ''What is a group?'' = ''What is a group?''"
  "trim ''Definition and examples'' = ''Definition and examples''"
  "trim ''A set with an operation'' = ''A set with an operation''"
  by (simp_all add: trim_def isSpace_def)

lemma voteQuestion_example:
  "voteQuestion ''q1'' ''u1'' ''downvote''
     (qaStore\<lparr>questions := [exampleQuestion\<lparr>q_upvotes := [''u1''],
                                            q_downvotes := [''u1'', ''u2'']\<rparr>]\<rparr>)
   = (Resp 200 ''Vote updated successfully'',
      qaStore\<lparr>questions := [exampleQuestion\<lparr>q_upvotes := [],
                                             q_downvotes := [''u2'', ''u1'']\<rparr>]\<rparr>)"
  by (simp add: voteQuestion_def voteTypes_def Question_findById_def Class_findById_def
      qaStore_def exampleQuestion_def joinedClass_def exampleClass_def isMember_def
      castVote_def updateOne_def)

theorem vote_exclusive_witness:
  "fst (voteQuestion ''q1'' ''u1'' ''downvote''
     (qaStore\<lparr>questions := [exampleQuestion\<lparr>q_upvotes := [''u1''],
                                            q_downvotes := [''u1'', ''u2'']\<rparr>]\<rparr>))
     = Resp 200 ''Vote updated successfully''
   \<and> exclusive ''u1'' ([], [''u2'', ''u1''])
   \<and> exclusiveQ ''u1'' ''q1''
        (run [VoteQuestion ''q1'' ''u1'' ''upvote'']
           (qaStore\<lparr>questions := [exampleQuestion\<lparr>q_upvotes := [],
                                             q_downvotes := [''u2'', ''u1'']\<rparr>]\<rparr>))"
proof -
  let ?s = "qaStore\<lparr>questions := [exampleQuestion\<lparr>q_upvotes := [''u1''],
                                            q_downvotes := [''u1'', ''u2'']\<rparr>]\<rparr>"
  have ok: "fst (voteQuestion ''q1'' ''u1'' ''downvote'' ?s)
      = Resp 200 ''Vote updated successfully''"
    by (simp add: voteQuestion_example)
  have cv: "castVote ''u1'' ''downvote'' ([''u1''], [''u1'', ''u2'']) = ([], [''u2'', ''u1''])"
    by (simp add: castVote_def)
  from vote_exclusive[of "''u1''" "''downvote''" "([''u1''], [''u1'', ''u2''])" "''q1''" ?s
      "[VoteQuestion ''q1'' ''u1'' ''upvote'']"] ok
  have "exclusive ''u1'' (castVote ''u1'' ''downvote'' ([''u1''], [''u1'', ''u2'']))"
    and "exclusiveQ ''u1'' ''q1'' (run [VoteQuestion ''q1'' ''u1'' ''upvote'']
        (snd (voteQuestion ''q1'' ''u1'' ''downvote'' ?s)))"
    by blast+
  with ok show ?thesis by (simp add: cv voteQuestion_example)
qed

subsection \<open>Accepting an answer\<close>

lemma qa_steps:
  "joinClass ''u2'' ''AAAAAA'' classStore
     = (Resp 200 ''Successfully joined class'', classStore\<lparr>classes := [joinedClass]\<rparr>)"
  "createQuestion ''q1'' ''c1'' ''u2'' ''What is a group?'' ''Definition and examples''
       NoTags (classStore\<lparr>classes := [joinedClass]\<rparr>)
     = (Resp 201 ''Question created successfully'',
        qaStore\<lparr>questions := [exampleQuestion\<lparr>q_answers := [], q_isResolved := False\<rparr>],
                answers := []\<rparr>)"
  "createAnswer ''a1'' ''q1'' ''u1'' ''A set with an operation''
       (qaStore\<lparr>questions := [exampleQuestion\<lparr>q_answers := [], q_isResolved := False\<rparr>],
                answers := []\<rparr>)
     = (Resp 201 ''Answer created successfully'',
        qaStore\<lparr>questions := [exampleQuestion\<lparr>q_isResolved := False\<rparr>],
                answers := [exampleAnswer\<lparr>a_isAccepted := False\<rparr>]\<rparr>)"
  "acceptAnswer ''a1'' ''u2''
       (qaStore\<lparr>questions := [exampleQuestion\<lparr>q_isResolved := False\<rparr>],
                answers := [exampleAnswer\<lparr>a_isAccepted := False\<rparr>]\<rparr>)
     = (Resp 200 ''Answer accepted successfully'', qaStore)"
     apply (simp add: joinClass_example)
    apply (simp add: createQuestion_def trim_examples Class_findById_def classStore_def
      joinedClass_def exampleClass_def isMember_def processTags_def Question_insert_def
      qaStore_def exampleQuestion_def)
   apply (simp add: createAnswer_def trim_examples Question_findById_def Class_findById_def
      joinedClass_def exampleClass_def isMember_def Answer_insert_def updateOne_def
      qaStore_def exampleQuestion_def exampleAnswer_def)
  apply (simp add: acceptAnswer_def Answer_findById_def Question_findById_def Class_findById_def
      joinedClass_def exampleClass_def Answer_updateMany_unaccept_def updateOne_def
      qaStore_def exampleQuestion_def exampleAnswer_def)
  done

lemma run_qaRequests: "run qaRequests emptyStore = qaStore"
  using createClass_example by (simp add: qaRequests_def qa_steps)

lemma reachable_run: "reachable s \<Longrightarrow> list_all requestOk reqs \<Longrightarrow> reachable (run reqs s)"
  by (induction reqs arbitrary: s) (simp_all add: reachable_step)

lemma reachable_qaStore: "reachable qaStore"
proof -
  have "list_all requestOk qaRequests"
    by (simp add: qaRequests_def randomOk_zero)
  from reachable_run[OF reachable_empty this] show ?thesis
    by (simp add: run_qaRequests)
qed

text \<open>Accepting an answer that was not accepted when the handler loaded it: afterwards,
  among the answers of its question, exactly the answers with its id are accepted, and
  the question is resolved.\<close>

lemma acceptAnswer_first:
  assumes "Answer_findById (answers s) i = Some answer" and "\<not> a_isAccepted answer"
    and "fst (acceptAnswer i userId s) = Resp 200 ''Answer accepted successfully''"
  shows "(\<forall>a \<in> set (answers (snd (acceptAnswer i userId s))).
            a_questionId a = a_questionId answer \<longrightarrow> (a_isAccepted a \<longleftrightarrow> a_id a = i))
    \<and> (\<exists>q. Question_findById (questions (snd (acceptAnswer i userId s))) (a_questionId answer)
              = Some q \<and> q_isResolved q)"
proof -
  from assms(1,3) obtain question classDoc where ok:
    "Question_findById (questions s) (a_questionId answer) = Some question"
    "Class_findById (classes s) (q_classId question) = Some classDoc"
    "q_author question = userId \<or> isTeacher classDoc userId"
    by (auto simp: acceptAnswer_def Let_def split: option.splits if_splits)
  from Answer_findById_id[OF assms(1)] have ai: "a_id answer = i" by simp
  from Question_findById_id[OF ok(1)] have qi: "q_id question = a_questionId answer" by simp
  let ?as = "updateOne a_id i (\<lambda>d. d\<lparr>a_isAccepted := True\<rparr>)
      (Answer_updateMany_unaccept (a_questionId answer) (answers s))"
  let ?qs = "if q_isResolved question then questions s
      else updateOne q_id (a_questionId answer) (\<lambda>d. d\<lparr>q_isResolved := True\<rparr>) (questions s)"
  have s': "snd (acceptAnswer i userId s) = s\<lparr>answers := ?as, questions := ?qs\<rparr>"
    using assms(1,2) ok ai qi by (auto simp: acceptAnswer_def Let_def)
  have a: "\<forall>a \<in> set ?as. a_questionId a = a_questionId answer \<longrightarrow> (a_isAccepted a \<longleftrightarrow> a_id a = i)"
    by (auto simp: updateOne_def Answer_updateMany_unaccept_def)
  have q: "\<exists>q. Question_findById ?qs (a_questionId answer) = Some q \<and> q_isResolved q"
    using ok(1) qi by (auto simp: Question_findById_updateOne)
  from a q show ?thesis by (simp add: s')
qed

text \<open>Accepting an answer that was accepted when the handler loaded it: afterwards no
  answer of its question is accepted.\<close>

lemma acceptAnswer_again:
  assumes "Answer_findById (answers s) i = Some answer" and "a_isAccepted answer"
    and "fst (acceptAnswer i userId s) = Resp 200 ''Answer accepted successfully''"
  shows "\<forall>a \<in> set (answers (snd (acceptAnswer i userId s))).
            a_questionId a = a_questionId answer \<longrightarrow> \<not> a_isAccepted a"
proof -
  from assms(1,3) obtain question classDoc where ok:
    "Question_findById (questions s) (a_questionId answer) = Some question"
    "Class_findById (classes s) (q_classId question) = Some classDoc"
    "q_author question = userId \<or> isTeacher classDoc userId"
    by (auto simp: acceptAnswer_def Let_def split: option.splits if_splits)
  have "answers (snd (acceptAnswer i userId s))
      = Answer_updateMany_unaccept (a_questionId answer) (answers s)"
    using assms(1,2) ok by (auto simp: acceptAnswer_def Let_def)
  then show ?thesis by (auto simp: Answer_updateMany_unaccept_def)
qed

text \<open>C5. On the store in which answer a1 of question q1 is the accepted answer, reached
  by five requests from the empty store, the author of q1 accepts a1 once more: the
  response is the success response, and in the store after it a1 is not accepted, while
  q1 is resolved.\<close>

theorem accept_again_clears_flag:
  "run qaRequests emptyStore = qaStore
   \<and> acceptAnswer ''a1'' ''u2'' qaStore
       = (Resp 200 ''Answer accepted successfully'',
          qaStore\<lparr>answers := [exampleAnswer\<lparr>a_isAccepted := False\<rparr>]\<rparr>)"
proof -
  have "acceptAnswer ''a1'' ''u2'' qaStore
       = (Resp 200 ''Answer accepted successfully'',
          qaStore\<lparr>answers := [exampleAnswer\<lparr>a_isAccepted := False\<rparr>]\<rparr>)"
    by (simp add: acceptAnswer_def Answer_findById_def Question_findById_def Class_findById_def
      joinedClass_def exampleClass_def Answer_updateMany_unaccept_def updateOne_def
      qaStore_def exampleQuestion_def exampleAnswer_def)
  with run_qaRequests show ?thesis by simp
qed

subsection \<open>Resolved questions stay resolved\<close>

lemma resolvedKept_refl: "resolvedKept qs qs"
  by (simp add: resolvedKept_def)

lemma resolvedKept_trans: "resolvedKept qs qs' \<Longrightarrow> resolvedKept qs' qs'' \<Longrightarrow> resolvedKept qs qs''"
  by (auto simp: resolvedKept_def)

lemma resolvedKept_updateOne:
  assumes "\<And>d. q_id (f d) = q_id d \<and> (q_isResolved d \<longrightarrow> q_isResolved (f d))"
  shows "resolvedKept qs (updateOne q_id j f qs)"
  using assms by (simp add: resolvedKept_def updateOne_def)

lemma resolvedKept_append: "resolvedKept qs (qs @ [d])"
  by (simp add: resolvedKept_def nth_append)

lemma resolvedKept_routes:
  "resolvedKept (questions s) (questions (snd (getQuestion i userId s)))"
  "resolvedKept (questions s)
     (questions (snd (createQuestion newId classId userId title description tags s)))"
  "resolvedKept (questions s)
     (questions (snd (updateQuestion i userId otitle odescription otags s)))"
  "resolvedKept (questions s) (questions (snd (voteQuestion i userId type s)))"
  "resolvedKept (questions s) (questions (snd (deleteQuestion i userId s)))"
  "resolvedKept (questions s) (questions (snd (createAnswer newId questionId userId text s)))"
  "resolvedKept (questions s) (questions (snd (acceptAnswer i userId s)))"
  "resolvedKept (questions s) (questions (snd (deleteAnswer i userId s)))"
  by (auto simp: getQuestion_def createQuestion_def updateQuestion_def voteQuestion_def
      deleteQuestion_def createAnswer_def acceptAnswer_def deleteAnswer_def
      Question_insert_def Answer_insert_def Let_def resolvedKept_refl
      intro!: resolvedKept_updateOne resolvedKept_append split: option.splits)

lemma resolvedKept_handle: "resolvedKept (questions s) (questions (snd (handle req s)))"
  by (cases req)
    (simp_all add: questions_class_routes questions_answer_routes resolvedKept_routes
      resolvedKept_refl)

lemma resolvedKept_run: "resolvedKept (questions s) (questions (run reqs s))"
proof (induction reqs arbitrary: s)
  case Nil
  show ?case by (simp add: resolvedKept_refl)
next
  case (Cons req reqs)
  from resolvedKept_trans[OF resolvedKept_handle[of s req] Cons[of "snd (handle req s)"]]
  show ?case by simp
qed

lemma deleteAnswer_flags:
  "map q_isResolved (questions (snd (deleteAnswer i userId s))) = map q_isResolved (questions s)"
  by (auto simp: deleteAnswer_def updateOne_def split: option.splits)

lemma deleteAnswer_accepted:
  assumes "fst (deleteAnswer i userId s) = Resp 200 ''Answer deleted successfully''"
    and "\<forall>b \<in> set (answers s). a_questionId b = q \<and> a_isAccepted b \<longrightarrow> a_id b = i"
  shows "\<forall>b \<in> set (answers (snd (deleteAnswer i userId s))).
           a_questionId b = q \<and> a_isActive b \<longrightarrow> \<not> a_isAccepted b"
proof -
  from assms(1) obtain answer where a: "Answer_findById (answers s) i = Some answer"
    and s': "answers (snd (deleteAnswer i userId s))
        = updateOne a_id (a_id answer) (\<lambda>d. d\<lparr>a_isActive := False\<rparr>) (answers s)"
    by (auto simp: deleteAnswer_def split: option.splits if_splits)
  from Answer_findById_id[OF a] have "a_id answer = i" by simp
  with s' assms(2) show ?thesis
    by (auto simp: updateOne_def split: if_splits)
qed

text \<open>C9. Deleting an answer leaves the resolved flag of every question as it was; when
  the deleted answer was the only accepted answer of its question, no answer of the
  question that is still active is accepted afterwards, so a resolved question is left
  resolved with no accepted answer. No request, and no sequence of requests, takes a
  question out of the collection or clears its resolved flag.\<close>

theorem resolved_is_kept:
  "map q_isResolved (questions (snd (deleteAnswer i userId s))) = map q_isResolved (questions s)
   \<and> (fst (deleteAnswer i userId s) = Resp 200 ''Answer deleted successfully''
        \<and> (\<forall>b \<in> set (answers s). a_questionId b = q \<and> a_isAccepted b \<longrightarrow> a_id b = i) \<longrightarrow>
      (\<forall>b \<in> set (answers (snd (deleteAnswer i userId s))).
           a_questionId b = q \<and> a_isActive b \<longrightarrow> \<not> a_isAccepted b))
   \<and> resolvedKept (questions s) (questions (snd (handle req s)))
   \<and> resolvedKept (questions s) (questions (run reqs s))"
  using deleteAnswer_flags deleteAnswer_accepted resolvedKept_handle resolvedKept_run
  by blast

theorem resolved_is_kept_witness:
  "deleteAnswer ''a1'' ''u1'' qaStore
     = (Resp 200 ''Answer deleted successfully'',
        qaStore\<lparr>answers := [exampleAnswer\<lparr>a_isActive := False\<rparr>],
                questions := [exampleQuestion\<lparr>q_answers := []\<rparr>]\<rparr>)
   \<and> a_isAccepted exampleAnswer \<and> a_questionId exampleAnswer = ''q1''
   \<and> map q_isResolved (questions qaStore) = [True]
   \<and> map q_isResolved (questions (snd (deleteAnswer ''a1'' ''u1'' qaStore))) = [True]
   \<and> \<not> (a_isActive (exampleAnswer\<lparr>a_isActive := False\<rparr>)
          \<and> a_isAccepted (exampleAnswer\<lparr>a_isActive := False\<rparr>))"
proof -
  let ?s' = "qaStore\<lparr>answers := [exampleAnswer\<lparr>a_isActive := False\<rparr>],
                questions := [exampleQuestion\<lparr>q_answers := []\<rparr>]\<rparr>"
  have d: "deleteAnswer ''a1'' ''u1'' qaStore = (Resp 200 ''Answer deleted successfully'', ?s')"
    by (simp add: deleteAnswer_def Answer_findById_def Question_findById_def Class_findById_def
      joinedClass_def exampleClass_def updateOne_def isTeacher_def
      qaStore_def exampleQuestion_def exampleAnswer_def)
  have r: "map q_isResolved (questions qaStore) = [True]"
    by (simp add: qaStore_def exampleQuestion_def)
  have e: "a_isAccepted exampleAnswer" "a_questionId exampleAnswer = ''q1''"
    by (simp_all add: exampleAnswer_def)
  have only: "\<forall>b \<in> set (answers qaStore).
      a_questionId b = ''q1'' \<and> a_isAccepted b \<longrightarrow> a_id b = ''a1''"
    by (simp add: qaStore_def exampleAnswer_def)
  have ok: "fst (deleteAnswer ''a1'' ''u1'' qaStore) = Resp 200 ''Answer deleted successfully''"
    by (simp add: d)
  from resolved_is_kept[of "''a1''" "''u1''" qaStore "''q1''"] r ok only
  have flags: "map q_isResolved (questions (snd (deleteAnswer ''a1'' ''u1'' qaStore))) = [True]"
    and none: "\<forall>b \<in> set (answers (snd (deleteAnswer ''a1'' ''u1'' qaStore))).
           a_questionId b = ''q1'' \<and> a_isActive b \<longrightarrow> \<not> a_isAccepted b"
    by simp_all
  from none have "\<not> (a_isActive (exampleAnswer\<lparr>a_isActive := False\<rparr>)
          \<and> a_isAccepted (exampleAnswer\<lparr>a_isActive := False\<rparr>))"
    by (simp add: d)
  with d r e flags show ?thesis by simp
qed

end
